theory Spec2Isabelle
  imports Complex_Main
begin

section \<open>Python floats\<close>

text \<open>
  The timing engine of \<^verbatim>\<open>create_rotating_gif_spline.py\<close> computes with Python floats.
  A float is modelled as the real number it denotes, and every arithmetic operation of the
  source is the exact operation followed by a rounding function \<open>fl\<close>, which every
  definition below takes as its first argument. Two roundings are used:
  \<^item> \<open>exact\<close>, no rounding at all (arithmetic on the reals);
  \<^item> \<open>binary64\<close>, round to nearest, ties to even, to a 53 bit significand, which is
    what CPython does on IEEE 754 doubles. The exponent range is not bounded here:
    overflow, subnormal numbers, infinities and NaN are outside the model, and
    \<open>math.exp\<close>, \<open>math.cos\<close> and \<open>**\<close> are taken as correctly rounded. The
    model agrees with CPython as long as every intermediate value stays in the normal
    range of the doubles, as in all the runs evaluated below; outside it the source
    yields \<open>inf\<close> or \<open>nan\<close>, or \<open>**\<close> raises \<open>OverflowError\<close>.
  Comparisons, negation, \<open>max\<close>, \<open>min\<close> and the literals \<open>0.0\<close>, \<open>1.0\<close>,
  \<open>270.0\<close>, \<open>360.0\<close> and \<open>1000\<close> are exact; the literal \<open>0.7\<close> and
  \<open>math.pi\<close> are rounded.
\<close>

type_synonym rounding = "real \<Rightarrow> real"

definition exact :: rounding where
  "exact x = x"

text \<open>\<^verbatim>\<open>round(x)\<close> on a float: the nearest integer, a tie going to the even one.\<close>

definition py_round :: "real \<Rightarrow> int" where
  "py_round x =
     (let f = \<lfloor>x\<rfloor>; r = x - of_int f
      in if r < 1 / 2 then f else if 1 / 2 < r then f + 1 else if even f then f else f + 1)"

text \<open>\<^verbatim>\<open>int(x)\<close> on a float truncates towards zero.\<close>

definition py_int :: "real \<Rightarrow> int" where
  "py_int x = (if 0 \<le> x then \<lfloor>x\<rfloor> else \<lceil>x\<rceil>)"

text \<open>
  The binary exponent of a positive number, \<open>\<lfloor>log 2 x\<rfloor>\<close>, found by halving and
  doubling.
\<close>

function flog2 :: "real \<Rightarrow> int" where
  "flog2 x =
     (if x \<le> 0 then 0
      else if 2 \<le> x then flog2 (x / 2) + 1
      else if x < 1 then flog2 (2 * x) - 1
      else 0)"
  by pat_completeness auto
termination
proof (relation "measure (\<lambda>x. nat \<bar>\<lfloor>log 2 x\<rfloor>\<bar>)")
  show "wf (measure (\<lambda>x. nat \<bar>\<lfloor>log 2 x\<rfloor>\<bar>))" by simp
next
  fix x :: real
  assume "\<not> x \<le> 0" and big: "2 \<le> x"
  then have "log 2 (x / 2) = log 2 x - 1" by (simp add: log_divide)
  moreover have "1 \<le> \<lfloor>log 2 x\<rfloor>"
    using big by (simp add: le_floor_iff le_log_iff)
  ultimately show "(x / 2, x) \<in> measure (\<lambda>x. nat \<bar>\<lfloor>log 2 x\<rfloor>\<bar>)" by simp
next
  fix x :: real
  assume pos: "\<not> x \<le> 0" and "\<not> 2 \<le> x" and small: "x < 1"
  then have "log 2 (2 * x) = log 2 x + 1" by (simp add: log_mult)
  moreover have "\<lfloor>log 2 x\<rfloor> \<le> - 1"
  proof -
    have "log 2 x < 0" using pos small by simp
    then have "\<lfloor>log 2 x\<rfloor> < 0" by (subst floor_less_iff) simp
    then show ?thesis by linarith
  qed
  ultimately show "(2 * x, x) \<in> measure (\<lambda>x. nat \<bar>\<lfloor>log 2 x\<rfloor>\<bar>)" by simp
qed

declare flog2.simps [simp del]

definition binary64 :: rounding where
  "binary64 x =
     (if x = 0 then 0
      else let e = flog2 \<bar>x\<bar> - 52
           in of_int (py_round (x / 2 powi e)) * 2 powi e)"

text \<open>
  What the sign of a curve's result needs of a rounding: it is monotone and leaves 0, 1 and
  -1 as they are. Both roundings are of this kind.
\<close>

definition monotone_rounding :: "rounding \<Rightarrow> bool" where
  "monotone_rounding fl \<longleftrightarrow>
     (\<forall>x y. x \<le> y \<longrightarrow> fl x \<le> fl y) \<and> fl 0 = 0 \<and> fl 1 = 1 \<and> fl (- 1) = - 1"

datatype error = ZeroDivisionError | IndexError

section \<open>The slowdown curves\<close>

text \<open>
  Each curve divides by \<open>animation_length\<close> first; Python raises
  \<open>ZeroDivisionError\<close> on a float division by zero.
\<close>

type_synonym curve = "real \<Rightarrow> real \<Rightarrow> error + real"

definition exponential_slowdown :: "rounding \<Rightarrow> real \<Rightarrow> real \<Rightarrow> real \<Rightarrow> real \<Rightarrow> error + real" where
  "exponential_slowdown fl t animation_length initial_speed decay_factor =
     (if animation_length = 0 then Inl ZeroDivisionError
      else let decay_rate = fl (decay_factor / animation_length)
           in Inr (fl (initial_speed * fl (exp (fl (- decay_rate * t))))))"

definition exponential_slowdown_with_min ::
  "rounding \<Rightarrow> real \<Rightarrow> real \<Rightarrow> real \<Rightarrow> real \<Rightarrow> error + real" where
  "exponential_slowdown_with_min fl t animation_length initial_speed decay_factor =
     (if animation_length = 0 then Inl ZeroDivisionError
      else let decay_rate = fl (decay_factor / animation_length);
               res = fl (initial_speed * fl (exp (fl (- decay_rate * t))));
               threshold = fl (fl (7 / 10) * animation_length)
           in Inr (if threshold < t
                   then fl (initial_speed * fl (exp (fl (- decay_rate * threshold))))
                   else res))"

definition linear_slowdown :: "rounding \<Rightarrow> real \<Rightarrow> real \<Rightarrow> real \<Rightarrow> error + real" where
  "linear_slowdown fl t animation_length initial_speed =
     (if animation_length = 0 then Inl ZeroDivisionError
      else let slowdown_rate = fl (initial_speed / animation_length);
               speed = fl (initial_speed - fl (slowdown_rate * t))
           in Inr (max speed 0))"

definition quadratic_slowdown :: "rounding \<Rightarrow> real \<Rightarrow> real \<Rightarrow> real \<Rightarrow> error + real" where
  "quadratic_slowdown fl t animation_length initial_speed =
     (if animation_length = 0 then Inl ZeroDivisionError
      else let t_norm = fl (t / animation_length);
               factor = fl (fl (1 - t_norm) ^ 2)
           in Inr (fl (initial_speed * factor)))"

definition cosine_slowdown :: "rounding \<Rightarrow> real \<Rightarrow> real \<Rightarrow> real \<Rightarrow> error + real" where
  "cosine_slowdown fl t animation_length initial_speed =
     (if animation_length = 0 then Inl ZeroDivisionError
      else let phase = fl (min (fl (t / animation_length)) 1 * fl pi);
               factor = fl (fl (1 + fl (cos phase)) / 2)
           in Inr (fl (initial_speed * factor)))"

definition smooth_stop_slowdown :: "rounding \<Rightarrow> real \<Rightarrow> real \<Rightarrow> real \<Rightarrow> error + real" where
  "smooth_stop_slowdown fl t animation_length initial_speed =
     (if animation_length = 0 then Inl ZeroDivisionError
      else let t_norm = fl (t / animation_length);
               factor = fl (fl (1 - t_norm) ^ 3)
           in Inr (fl (initial_speed * factor)))"

text \<open>
  \<open>main\<close> binds the chosen curve to the command line's \<open>--initial-speed\<close> and
  \<open>--decay-factor\<close> and passes the closure on. It offers five kinds;
  \<open>exponential_slowdown_with_min\<close> is defined in the module but not offered, and is
  the sixth kind here.
\<close>

datatype curve_kind = Exponential | ExponentialWithMin | Linear | Quadratic | Cosine | SmoothStop

fun select_curve :: "rounding \<Rightarrow> curve_kind \<Rightarrow> real \<Rightarrow> real \<Rightarrow> curve" where
  "select_curve fl Exponential initial_speed decay_factor =
     (\<lambda>t length. exponential_slowdown fl t length initial_speed decay_factor)"
| "select_curve fl ExponentialWithMin initial_speed decay_factor =
     (\<lambda>t length. exponential_slowdown_with_min fl t length initial_speed decay_factor)"
| "select_curve fl Linear initial_speed decay_factor =
     (\<lambda>t length. linear_slowdown fl t length initial_speed)"
| "select_curve fl Quadratic initial_speed decay_factor =
     (\<lambda>t length. quadratic_slowdown fl t length initial_speed)"
| "select_curve fl Cosine initial_speed decay_factor =
     (\<lambda>t length. cosine_slowdown fl t length initial_speed)"
| "select_curve fl SmoothStop initial_speed decay_factor =
     (\<lambda>t length. smooth_stop_slowdown fl t length initial_speed)"

section \<open>The integration loop\<close>

text \<open>
  Lines 35 to 55 of \<open>create_rotating_gif_spline\<close>: the lists \<open>times\<close> and
  \<open>angles\<close> and the two accumulators are the loop's state. The loop has no bound of its
  own, so it is a partial function: \<open>None\<close> is a run that never leaves the loop, and an
  exception of the curve ends the run.
\<close>

record integrator =
  times :: "real list"
  angles :: "real list"
  current_time :: real
  total_angle :: real

definition initial :: integrator where
  "initial = \<lparr>times = [], angles = [], current_time = 0, total_angle = 0\<rparr>"

text \<open>One pass through the loop body, lines 44 to 55, once the curve has returned.\<close>

definition advance :: "rounding \<Rightarrow> real \<Rightarrow> real \<Rightarrow> integrator \<Rightarrow> integrator" where
  "advance fl frame_duration velocity s =
     \<lparr>times = times s @ [current_time s],
      angles = angles s @ [total_angle s],
      current_time = fl (current_time s + frame_duration),
      total_angle = fl (total_angle s + fl (velocity * frame_duration))\<rparr>"

partial_function (option) integrate ::
  "rounding \<Rightarrow> curve \<Rightarrow> real \<Rightarrow> real \<Rightarrow> integrator \<Rightarrow> (error + integrator) option" where
  "integrate fl slowdown_curve animation_length frame_duration s =
     (if current_time s \<le> animation_length then
        (case slowdown_curve (current_time s) animation_length of
           Inl e \<Rightarrow> Some (Inl e)
         | Inr velocity \<Rightarrow>
             integrate fl slowdown_curve animation_length frame_duration
               (advance fl frame_duration velocity s))
      else Some (Inr s))"

section \<open>Closing the loop\<close>

text \<open>
  \<^verbatim>\<open>angle % 360.0\<close>: CPython takes the C \<open>fmod\<close>, which is exact and has the sign of
  \<open>angle\<close>, and adds the divisor when the remainder is negative.
\<close>

definition mod360 :: "rounding \<Rightarrow> real \<Rightarrow> real" where
  "mod360 fl angle =
     (let m = angle - 360 * of_int (py_int (angle / 360))
      in if m < 0 then fl (m + 360) else m)"

definition num_full_rotations :: "rounding \<Rightarrow> real \<Rightarrow> int" where
  "num_full_rotations fl tot = py_round (fl (tot / 360))"

definition target_angle :: "rounding \<Rightarrow> real \<Rightarrow> real" where
  "target_angle fl tot = fl (fl (of_int (num_full_rotations fl tot)) * 360)"

definition scale_factor :: "rounding \<Rightarrow> real \<Rightarrow> real" where
  "scale_factor fl tot = fl (target_angle fl tot / tot)"

text \<open>The two lines the first branch prints, with the total they show.\<close>

datatype message = PartialRotation real

text \<open>
  Lines 62 to 78: what is printed, the new \<open>angles\<close> and the new \<open>total_angle\<close>.
  The division by \<open>total_angle\<close> is reached only with \<open>270 \<le> total_angle\<close>.
\<close>

definition normalize :: "rounding \<Rightarrow> real \<Rightarrow> real list \<Rightarrow> message list \<times> real list \<times> real" where
  "normalize fl tot as =
     (if tot < 270 then ([PartialRotation tot], map (mod360 fl) as, tot)
      else ([], map (mod360 fl) (map (\<lambda>angle. fl (angle * scale_factor fl tot)) as),
            target_angle fl tot))"

text \<open>Line 81, \<^verbatim>\<open>angles[-1] = 0.0\<close>, raises \<open>IndexError\<close> on an empty list.\<close>

definition set_last :: "real list \<Rightarrow> real \<Rightarrow> error + real list" where
  "set_last xs v = (if xs = [] then Inl IndexError else Inr (xs[length xs - 1 := v]))"

section \<open>Hold-still frames\<close>

fun hold_loop :: "rounding \<Rightarrow> nat \<Rightarrow> real \<Rightarrow> integrator \<Rightarrow> integrator" where
  "hold_loop fl 0 frame_duration s = s"
| "hold_loop fl (Suc n) frame_duration s =
     hold_loop fl n frame_duration
       (s\<lparr>angles := angles s @ [0],
          times := times s @ [current_time s],
          current_time := fl (current_time s + frame_duration)\<rparr>)"

text \<open>Lines 84 to 89. \<open>range\<close> of a negative number is empty.\<close>

definition hold_still_frames :: "rounding \<Rightarrow> real \<Rightarrow> real \<Rightarrow> integrator \<Rightarrow> error + integrator" where
  "hold_still_frames fl hold_still frame_duration s =
     (if 0 < hold_still then
        (if frame_duration = 0 then Inl ZeroDivisionError
         else let num_hold_frames = py_int (fl (hold_still / frame_duration))
              in Inr (hold_loop fl (nat num_hold_frames) frame_duration s))
      else Inr s)"

section \<open>Rendering and saving\<close>

text \<open>
  The rendering loop (lines 113 to 126) rotates the image by each angle and, for the first
  and every twentieth frame, calls the curve again at that frame's time to print its speed.
  Opening, rotating and saving images belong to PIL and are not modelled: the model is of a
  run whose input file exists and loads. \<open>times\<close> and \<open>angles\<close> grow together, so the
  loop over the angles is a loop over the times.
\<close>

fun progress_speeds :: "curve \<Rightarrow> real \<Rightarrow> nat \<Rightarrow> real list \<Rightarrow> error + real list" where
  "progress_speeds slowdown_curve animation_length i [] = Inr []"
| "progress_speeds slowdown_curve animation_length i (t # ts) =
     (if (i + 1) mod 20 = 0 \<or> i = 0 then
        (case slowdown_curve t animation_length of
           Inl e \<Rightarrow> Inl e
         | Inr velocity \<Rightarrow>
             (case progress_speeds slowdown_curve animation_length (Suc i) ts of
                Inl e \<Rightarrow> Inl e
              | Inr vs \<Rightarrow> Inr (velocity # vs)))
      else progress_speeds slowdown_curve animation_length (Suc i) ts)"

text \<open>
  What the run hands to the encoder and prints: one angle per frame and the single
  \<open>duration_ms\<close> that \<open>save\<close> applies to every frame.
\<close>

record plan =
  frame_angles :: "real list"
  frame_times :: "real list"
  duration_ms :: int
  num_frames :: nat
  num_rotations :: real
  total_duration :: real
  final_total_angle :: real
  printed :: "message list"
  reported_speeds :: "real list"

definition frames :: "plan \<Rightarrow> (real \<times> int) list" where
  "frames p = map (\<lambda>angle. (angle, duration_ms p)) (frame_angles p)"

text \<open>Lines 57 to 140, the run after the integration loop.\<close>

definition assemble :: "rounding \<Rightarrow> curve \<Rightarrow> real \<Rightarrow> real \<Rightarrow> real \<Rightarrow> integrator \<Rightarrow> error + plan" where
  "assemble fl slowdown_curve animation_length frame_duration hold_still s =
     (case normalize fl (total_angle s) (angles s) of
        (msgs, normalized, tot) \<Rightarrow>
          (case set_last normalized 0 of
             Inl e \<Rightarrow> Inl e
           | Inr looped \<Rightarrow>
               (case hold_still_frames fl hold_still frame_duration
                       (s\<lparr>angles := looped, total_angle := tot\<rparr>) of
                  Inl e \<Rightarrow> Inl e
                | Inr h \<Rightarrow>
                    (case progress_speeds slowdown_curve animation_length 0 (times h) of
                       Inl e \<Rightarrow> Inl e
                     | Inr speeds \<Rightarrow>
                         Inr \<lparr>frame_angles = angles h,
                              frame_times = times h,
                              duration_ms = py_int (fl (frame_duration * 1000)),
                              num_frames = length (angles h),
                              num_rotations = fl (tot / 360),
                              total_duration = fl (animation_length + hold_still),
                              final_total_angle = tot,
                              printed = msgs,
                              reported_speeds = speeds\<rparr>))))"

definition create_rotating_gif_spline ::
  "rounding \<Rightarrow> curve \<Rightarrow> real \<Rightarrow> real \<Rightarrow> real \<Rightarrow> (error + plan) option" where
  "create_rotating_gif_spline fl slowdown_curve animation_length frame_duration hold_still =
     (case integrate fl slowdown_curve animation_length frame_duration initial of
        None \<Rightarrow> None
      | Some (Inl e) \<Rightarrow> Some (Inl e)
      | Some (Inr s) \<Rightarrow>
          Some (assemble fl slowdown_curve animation_length frame_duration hold_still s))"

section \<open>Evaluating the roundings\<close>

lemma flog2_rec:
  assumes "0 < x"
  shows "flog2 x = (if 2 \<le> x then flog2 (x / 2) + 1 else if x < 1 then flog2 (2 * x) - 1 else 0)"
  using assms by (subst flog2.simps) simp

lemma flog2_eq:
  assumes "0 < x"
  shows "flog2 x = \<lfloor>log 2 x\<rfloor>"
  using assms
proof (induction x rule: flog2.induct)
  case (1 x)
  show ?case
  proof (cases "2 \<le> x")
    case True
    then have "flog2 (x / 2) = \<lfloor>log 2 (x / 2)\<rfloor>" using 1 by simp
    moreover have "log 2 (x / 2) = log 2 x - 1" using 1(3) by (simp add: log_divide)
    ultimately show ?thesis using True 1(3) by (subst flog2.simps) simp
  next
    case big: False
    show ?thesis
    proof (cases "x < 1")
      case True
      then have "flog2 (2 * x) = \<lfloor>log 2 (2 * x)\<rfloor>" using 1 big by simp
      moreover have "log 2 (2 * x) = log 2 x + 1" using 1(3) by (simp add: log_mult)
      ultimately show ?thesis using True big 1(3) by (subst flog2.simps) simp
    next
      case False
      then have "\<lfloor>log 2 x\<rfloor> = 0"
        using big 1(3) by (subst floor_log_eq_powr_iff) auto
      then show ?thesis using False big 1(3) by (subst flog2.simps) simp
    qed
  qed
qed

lemma binary64_zero: "binary64 0 = 0"
  by (simp add: binary64_def)

lemma binary64_nonzero:
  "x \<noteq> 0 \<Longrightarrow>
     binary64 x = of_int (py_round (x / 2 powi (flog2 \<bar>x\<bar> - 52))) * 2 powi (flog2 \<bar>x\<bar> - 52)"
  by (simp add: binary64_def Let_def)

lemmas b64 = binary64_zero binary64_nonzero flog2_rec py_round_def

section \<open>Rounding to a double is monotone\<close>

lemma flog2_bounds:
  assumes "0 < x"
  shows "2 powi flog2 x \<le> x" and "x < 2 powi (flog2 x + 1)"
proof -
  have "\<lfloor>log 2 x\<rfloor> = flog2 x" using assms by (simp add: flog2_eq)
  then have "2 powr real_of_int (flog2 x) \<le> x \<and> x < 2 powr real_of_int (flog2 x + 1)"
    using floor_log_eq_powr_iff[of x 2 "flog2 x"] assms by simp
  then show "2 powi flog2 x \<le> x" and "x < 2 powi (flog2 x + 1)"
    using powr_real_of_int'[of 2 "flog2 x"] powr_real_of_int'[of 2 "flog2 x + 1"] by simp_all
qed

lemma flog2_mono:
  assumes "0 < x" and "x \<le> y"
  shows "flog2 x \<le> flog2 y"
proof -
  have "0 < y" using assms by simp
  then show ?thesis
    using assms by (simp add: flog2_eq floor_mono)
qed

lemma py_round_bounds: "\<lfloor>x\<rfloor> \<le> py_round x" "py_round x \<le> \<lfloor>x\<rfloor> + 1"
  by (simp_all add: py_round_def Let_def)

lemma py_round_of_int: "py_round (real_of_int n) = n"
  by (simp add: py_round_def)

lemma py_round_mono:
  assumes "x \<le> y"
  shows "py_round x \<le> py_round y"
proof (cases "\<lfloor>x\<rfloor> = \<lfloor>y\<rfloor>")
  case True
  then show ?thesis using assms by (auto simp: py_round_def Let_def)
next
  case False
  then have "\<lfloor>x\<rfloor> < \<lfloor>y\<rfloor>" using floor_mono[OF assms] by simp
  then show ?thesis using py_round_bounds(2)[of x] py_round_bounds(1)[of y] by linarith
qed

lemma binary64_positive:
  assumes "0 < x"
  shows "2 powi flog2 x \<le> binary64 x" and "binary64 x \<le> 2 powi (flog2 x + 1)"
proof -
  let ?e = "flog2 x - 52"
  have p: "(0::real) < 2 powi ?e" by (simp add: zero_less_power_int)
  have split: "(2::real) powi flog2 x = 2 powi 52 * 2 powi ?e"
    "(2::real) powi (flog2 x + 1) = 2 powi 53 * 2 powi ?e"
    using power_int_add[of "2::real" 52 ?e] power_int_add[of "2::real" 53 ?e]
    by (simp_all add: algebra_simps)
  have lo: "2 powi 52 \<le> x / 2 powi ?e"
    using flog2_bounds(1)[OF assms] p unfolding split by (simp add: pos_le_divide_eq)
  have hi: "x / 2 powi ?e \<le> 2 powi 53"
    using flog2_bounds(2)[OF assms] p unfolding split by (simp add: pos_divide_le_eq)
  have "py_round (real_of_int (2 ^ 52)) \<le> py_round (x / 2 powi ?e)"
    using lo by (intro py_round_mono) simp
  then have a: "(2::int) ^ 52 \<le> py_round (x / 2 powi ?e)"
    unfolding py_round_of_int .
  have "py_round (x / 2 powi ?e) \<le> py_round (real_of_int (2 ^ 53))"
    using hi by (intro py_round_mono) simp
  then have b: "py_round (x / 2 powi ?e) \<le> (2::int) ^ 53"
    unfolding py_round_of_int .
  have r: "binary64 x = real_of_int (py_round (x / 2 powi ?e)) * 2 powi ?e"
    using assms by (simp add: binary64_nonzero)
  have "real_of_int (2 ^ 52) \<le> real_of_int (py_round (x / 2 powi ?e))"
    using a by (rule of_int_le_iff[THEN iffD2])
  then show "2 powi flog2 x \<le> binary64 x"
    unfolding r split using p by (simp add: mult_right_mono)
  have "real_of_int (py_round (x / 2 powi ?e)) \<le> real_of_int (2 ^ 53)"
    using b by (rule of_int_le_iff[THEN iffD2])
  then show "binary64 x \<le> 2 powi (flog2 x + 1)"
    unfolding r split using p by (simp add: mult_right_mono)
qed

lemma py_round_minus: "py_round (- x) = - py_round x"
proof (cases "x = real_of_int \<lfloor>x\<rfloor>")
  case True
  then have "py_round (- x) = py_round (real_of_int (- \<lfloor>x\<rfloor>))" by simp
  also have "\<dots> = - \<lfloor>x\<rfloor>" by (rule py_round_of_int)
  also have "\<dots> = - py_round (real_of_int \<lfloor>x\<rfloor>)" by (simp only: py_round_of_int)
  finally show ?thesis using True by simp
next
  case False
  then have lt: "real_of_int \<lfloor>x\<rfloor> < x" using of_int_floor_le[of x] by linarith
  have ub: "x < real_of_int \<lfloor>x\<rfloor> + 1" by linarith
  have c: "real_of_int (- \<lfloor>x\<rfloor> - 1) = - real_of_int \<lfloor>x\<rfloor> - 1" by simp
  have "\<lfloor>- x\<rfloor> = - \<lfloor>x\<rfloor> - 1"
  proof (rule floor_unique)
    show "real_of_int (- \<lfloor>x\<rfloor> - 1) \<le> - x" unfolding c using ub by linarith
    show "- x < real_of_int (- \<lfloor>x\<rfloor> - 1) + 1" unfolding c using lt by linarith
  qed
  then show ?thesis
    using lt by (auto simp: py_round_def Let_def)
qed

lemma binary64_minus: "binary64 (- x) = - binary64 x"
  by (cases "x = 0") (simp_all add: binary64_zero binary64_nonzero py_round_minus)

lemma binary64_mono_positive:
  assumes "0 < x" and "x \<le> y"
  shows "binary64 x \<le> binary64 y"
proof (cases "flog2 x = flog2 y")
  case True
  let ?e = "flog2 y - 52"
  have p: "(0::real) < 2 powi ?e" by (simp add: zero_less_power_int)
  then have "x / 2 powi ?e \<le> y / 2 powi ?e" using assms(2) by (simp add: divide_right_mono)
  then have "py_round (x / 2 powi ?e) \<le> py_round (y / 2 powi ?e)" by (rule py_round_mono)
  then have "real_of_int (py_round (x / 2 powi ?e)) \<le> real_of_int (py_round (y / 2 powi ?e))"
    by (rule of_int_le_iff[THEN iffD2])
  then show ?thesis
    using assms p True by (simp add: binary64_nonzero mult_right_mono)
next
  case False
  then have "flog2 x + 1 \<le> flog2 y" using flog2_mono[OF assms] by simp
  then have "(2::real) powi (flog2 x + 1) \<le> 2 powi flog2 y"
    by (intro power_int_increasing) simp_all
  then show ?thesis
    using binary64_positive(2)[OF assms(1)] binary64_positive(1)[of y] assms by simp
qed

lemma binary64_mono:
  assumes "x \<le> y"
  shows "binary64 x \<le> binary64 y"
proof -
  have pos: "0 < binary64 z" if "0 < z" for z
  proof -
    have "(0::real) < 2 powi flog2 z" by (rule zero_less_power_int) simp
    with binary64_positive(1)[OF that] show ?thesis by linarith
  qed
  have neg: "binary64 z < 0" if "z < 0" for z
    using pos[of "- z"] that by (simp add: binary64_minus)
  consider "0 < x" | "x = 0" | "x < 0" "0 < y" | "x < 0" "y = 0" | "x < 0" "y < 0" by linarith
  then show ?thesis
  proof cases
    case 1
    then show ?thesis using assms by (rule binary64_mono_positive)
  next
    case 2
    then show ?thesis using assms pos[of y] by (cases "y = 0") (simp_all add: binary64_zero)
  next
    case 3
    then show ?thesis using pos[of y] neg[of x] by simp
  next
    case 4
    then show ?thesis using neg[of x] by (simp add: binary64_zero)
  next
    case 5
    then have "binary64 (- y) \<le> binary64 (- x)"
      using assms by (intro binary64_mono_positive) simp_all
    then show ?thesis by (simp add: binary64_minus)
  qed
qed

lemma monotone_rounding_exact: "monotone_rounding exact"
  by (simp add: monotone_rounding_def exact_def)

lemma monotone_rounding_binary64: "monotone_rounding binary64"
  unfolding monotone_rounding_def
  by (intro conjI allI impI binary64_mono) (simp_all add: b64)

text \<open>Integers below \<open>2 ^ 53\<close> are doubles.\<close>

lemma binary64_of_int:
  assumes "\<bar>m\<bar> < 2 ^ 53"
  shows "binary64 (real_of_int m) = real_of_int m"
proof (cases "m = 0")
  case True
  then show ?thesis by (simp add: binary64_zero)
next
  case False
  define x where "x = \<bar>real_of_int m\<bar>"
  have x: "0 < x" "x < 2 ^ 53"
  proof -
    show "0 < x" using False unfolding x_def by simp
    have "real_of_int \<bar>m\<bar> < real_of_int (2 ^ 53)" using assms by (rule of_int_less_iff[THEN iffD2])
    then show "x < 2 ^ 53" unfolding x_def by simp
  qed
  have "flog2 x < 53"
  proof (rule ccontr)
    assume "\<not> flog2 x < 53"
    then have "(2::real) powi 53 \<le> 2 powi flog2 x" by (intro power_int_increasing) simp_all
    with flog2_bounds(1)[OF x(1)] x(2) show False by simp
  qed
  then have "flog2 x - 52 = - int (nat (52 - flog2 x))" by simp
  then obtain n where n: "flog2 x - 52 = - int n" ..
  have pw: "(2::real) powi (- int n) = 1 / 2 ^ n"
    by (simp add: power_int_minus field_simps)
  have "real_of_int m / 2 powi (- int n) = real_of_int (m * 2 ^ n)"
    by (simp add: pw)
  then have "py_round (real_of_int m / 2 powi (- int n)) = m * 2 ^ n"
    by (simp only: py_round_of_int)
  then show ?thesis
    using False n unfolding x_def by (simp add: binary64_nonzero pw)
qed

lemma rounding_nonneg: "monotone_rounding fl \<Longrightarrow> 0 \<le> x \<Longrightarrow> 0 \<le> fl x"
  unfolding monotone_rounding_def by (metis (no_types))

lemma rounding_le_one: "monotone_rounding fl \<Longrightarrow> x \<le> 1 \<Longrightarrow> fl x \<le> 1"
  unfolding monotone_rounding_def by (metis (no_types))

lemma rounding_ge_minus_one: "monotone_rounding fl \<Longrightarrow> - 1 \<le> x \<Longrightarrow> - 1 \<le> fl x"
  unfolding monotone_rounding_def by (metis (no_types))

section \<open>The integration loop, step by step\<close>

text \<open>
  The induction principle of a run that leaves the loop: the loop is over, or the curve
  raises, or the body runs once and the rest of the run follows.
\<close>

lemma integrate_induct:
  assumes run: "integrate fl c L d s = Some r"
    and stop: "\<And>s. \<not> current_time s \<le> L \<Longrightarrow> P s (Inr s)"
    and raise: "\<And>s e. current_time s \<le> L \<Longrightarrow> c (current_time s) L = Inl e \<Longrightarrow> P s (Inl e)"
    and step: "\<And>s v r. current_time s \<le> L \<Longrightarrow> c (current_time s) L = Inr v \<Longrightarrow>
                 P (advance fl d v s) r \<Longrightarrow> P s r"
  shows "P s r"
proof -
  have "fl' = fl \<and> c' = c \<and> L' = L \<and> d' = d \<longrightarrow> P s' r'"
    if "integrate fl' c' L' d' s' = Some r'" for fl' c' L' d' s' r'
  proof (rule integrate.raw_induct[where P = "\<lambda>fl' c' L' d' s' r'.
            fl' = fl \<and> c' = c \<and> L' = L \<and> d' = d \<longrightarrow> P s' r'", OF _ that])
    fix g fl' c' L' d' s' r'
    assume IH: "\<And>fl' c' L' d' s' r'. g fl' c' L' d' s' = Some r' \<Longrightarrow>
                  fl' = fl \<and> c' = c \<and> L' = L \<and> d' = d \<longrightarrow> P s' r'"
      and eq: "(if current_time s' \<le> L' then
                  (case c' (current_time s') L' of Inl e \<Rightarrow> Some (Inl e)
                   | Inr velocity \<Rightarrow> g fl' c' L' d' (advance fl' d' velocity s'))
                else Some (Inr s')) = Some r'"
    show "fl' = fl \<and> c' = c \<and> L' = L \<and> d' = d \<longrightarrow> P s' r'"
    proof
      assume same: "fl' = fl \<and> c' = c \<and> L' = L \<and> d' = d"
      show "P s' r'"
      proof (cases "current_time s' \<le> L")
        case False
        with eq same stop show ?thesis by auto
      next
        case True
        show ?thesis
        proof (cases "c (current_time s') L")
          case (Inl e)
          with eq same True raise show ?thesis by auto
        next
          case (Inr v)
          with eq same True have "g fl c L d (advance fl d v s') = Some r'" by simp
          from IH[OF this] have "P (advance fl d v s') r'" by simp
          with step True Inr show ?thesis by blast
        qed
      qed
    qed
  qed
  with run show ?thesis by blast
qed

lemma select_curve_zero: "select_curve fl kind v0 k t 0 = Inl ZeroDivisionError"
  by (cases kind)
     (simp_all add: exponential_slowdown_def exponential_slowdown_with_min_def
        linear_slowdown_def quadratic_slowdown_def cosine_slowdown_def smooth_stop_slowdown_def)

lemma select_curve_total: "L \<noteq> 0 \<Longrightarrow> \<exists>v. select_curve fl kind v0 k t L = Inr v"
  by (cases kind)
     (simp_all add: exponential_slowdown_def exponential_slowdown_with_min_def
        linear_slowdown_def quadratic_slowdown_def cosine_slowdown_def smooth_stop_slowdown_def Let_def)

lemma integrate_extends:
  assumes "integrate fl c L d s = Some (Inr s')"
  shows "\<exists>xs ys. angles s' = angles s @ xs \<and> times s' = times s @ ys \<and> length xs = length ys \<and>
           (current_time s \<le> L \<longrightarrow> xs \<noteq> [] \<and> hd xs = total_angle s \<and> hd ys = current_time s)"
proof -
  let ?P = "\<lambda>(s::integrator) (r::error + integrator). \<forall>s'::integrator. r = Inr s' \<longrightarrow> (\<exists>xs ys. angles s' = angles s @ xs \<and> times s' = times s @ ys \<and>
      length xs = length ys \<and>
      (current_time s \<le> L \<longrightarrow> xs \<noteq> [] \<and> hd xs = total_angle s \<and> hd ys = current_time s))"
  have "?P s (Inr s')"
  proof (rule integrate_induct[where P = ?P, OF assms])
    fix s :: integrator assume "\<not> current_time s \<le> L"
    then show "?P s (Inr s)" by simp
  next
    fix s :: integrator and e :: error
    show "?P s (Inl e)" by simp
  next
    fix s :: integrator and v and r :: "error + integrator"
    assume t: "current_time s \<le> L" and IH: "?P (advance fl d v s) r"
    show "?P s r"
    proof (intro allI impI)
      fix s' :: integrator assume "r = Inr s'"
      with IH obtain xs ys where
        "angles s' = angles (advance fl d v s) @ xs" "times s' = times (advance fl d v s) @ ys"
        "length xs = length ys"
        by blast
      then show "\<exists>xs ys. angles s' = angles s @ xs \<and> times s' = times s @ ys \<and>
          length xs = length ys \<and>
          (current_time s \<le> L \<longrightarrow> xs \<noteq> [] \<and> hd xs = total_angle s \<and> hd ys = current_time s)"
        by (intro exI[of _ "total_angle s # xs"] exI[of _ "current_time s # ys"])
           (simp add: advance_def)
    qed
  qed
  then show ?thesis by simp
qed

lemma integrate_error:
  assumes "integrate fl c L d s = Some (Inl e)"
  shows "\<exists>t. c t L = Inl e"
proof -
  let ?P = "\<lambda>(s::integrator) (r::error + integrator). \<forall>e. r = Inl e \<longrightarrow> (\<exists>t. c t L = Inl e)"
  have "?P s (Inl e)"
    by (rule integrate_induct[where P = ?P, OF assms]) auto
  then show ?thesis by simp
qed

lemma integrate_diverges:
  assumes start: "I s"
    and keep: "\<And>s v. I s \<Longrightarrow> c (current_time s) L = Inr v \<Longrightarrow> I (advance fl d v s)"
    and inside: "\<And>s. I s \<Longrightarrow> current_time s \<le> L"
    and total: "\<And>s. I s \<Longrightarrow> \<exists>v. c (current_time s) L = Inr v"
  shows "integrate fl c L d s = None"
proof (rule ccontr)
  assume "integrate fl c L d s \<noteq> None"
  then obtain r where run: "integrate fl c L d s = Some r" by auto
  have "\<not> I s"
  proof (rule integrate_induct[where P = "\<lambda>s r. \<not> I s", OF run])
    fix s :: integrator assume "\<not> current_time s \<le> L"
    then show "\<not> I s" using inside by blast
  next
    fix s :: integrator and e assume "c (current_time s) L = Inl e"
    then show "\<not> I s" using total by fastforce
  next
    fix s :: integrator and v assume "c (current_time s) L = Inr v" "\<not> I (advance fl d v s)"
    then show "\<not> I s" using keep by blast
  qed
  with start show False by simp
qed

lemma integrate_exact_run:
  assumes d: "0 < d"
    and total: "\<And>t. t \<le> L \<Longrightarrow> \<exists>v. c t L = Inr v"
  shows "\<exists>s'. integrate exact c L d s = Some (Inr s') \<and>
           length (angles s') = length (angles s) +
             (if current_time s \<le> L then nat \<lfloor>(L - current_time s) / d\<rfloor> + 1 else 0)"
proof (induction "if current_time s \<le> L then nat \<lfloor>(L - current_time s) / d\<rfloor> + 1 else 0"
        arbitrary: s)
  case 0
  then have "\<not> current_time s \<le> L" by (simp split: if_splits)
  then show ?case by (subst integrate.simps) simp
next
  case (Suc n)
  then have t: "current_time s \<le> L" and n: "n = nat \<lfloor>(L - current_time s) / d\<rfloor>"
    by (simp_all split: if_splits)
  from total[OF t] obtain v where v: "c (current_time s) L = Inr v" by blast
  let ?s = "advance exact d v s"
  have ct: "current_time ?s = current_time s + d" by (simp add: advance_def exact_def)
  have q: "(L - current_time ?s) / d = (L - current_time s) / d - 1"
    using d by (simp add: ct field_simps)
  have cnt: "n = (if current_time ?s \<le> L then nat \<lfloor>(L - current_time ?s) / d\<rfloor> + 1 else 0)"
  proof (cases "current_time ?s \<le> L")
    case True
    define k where "k = \<lfloor>(L - current_time ?s) / d\<rfloor>"
    have "0 \<le> (L - current_time ?s) / d" using True d by simp
    then have k: "0 \<le> k" unfolding k_def by simp
    have "\<lfloor>(L - current_time s) / d\<rfloor> = k + 1"
      unfolding k_def using q by simp
    then have "n = nat k + 1" using n k by (simp add: nat_add_distrib)
    then show ?thesis using True by (simp add: k_def)
  next
    case False
    then have "(L - current_time s) / d < 1" using d by (simp add: ct field_simps)
    then have "\<lfloor>(L - current_time s) / d\<rfloor> \<le> 0" by (simp add: floor_le_iff)
    then show ?thesis using False n by simp
  qed
  from Suc.hyps(1)[OF cnt] obtain s' where
    "integrate exact c L d ?s = Some (Inr s')"
    "length (angles s') = length (angles ?s) + n"
    using cnt by auto
  then show ?case using t v n
    by (subst integrate.simps) (simp add: advance_def)
qed

section \<open>The run after the loop\<close>

lemma hold_loop_angles: "angles (hold_loop fl n d s) = angles s @ replicate n 0"
  by (induction n arbitrary: s) (simp_all add: replicate_app_Cons_same)

lemma hold_loop_times: "length (times (hold_loop fl n d s)) = length (times s) + n"
  by (induction n arbitrary: s) simp_all

lemma hold_loop_total: "total_angle (hold_loop fl n d s) = total_angle s"
  by (induction n arbitrary: s) simp_all

lemma nat_py_int: "nat (py_int y) = nat \<lfloor>y\<rfloor>"
proof (cases "0 \<le> y")
  case True
  then show ?thesis by (simp add: py_int_def)
next
  case False
  then have "\<lceil>y\<rceil> \<le> 0" "\<lfloor>y\<rfloor> \<le> 0" by (simp_all add: ceiling_le_iff floor_le_iff)
  with False show ?thesis by (simp add: py_int_def)
qed

lemma progress_speeds_total:
  assumes "\<And>t. \<exists>v. c t L = Inr v"
  shows "\<exists>vs. progress_speeds c L i ts = Inr vs"
proof (induction ts arbitrary: i)
  case Nil
  show ?case by simp
next
  case (Cons t ts)
  obtain v where "c t L = Inr v" using assms by blast
  moreover obtain vs where "progress_speeds c L (Suc i) ts = Inr vs" using Cons by blast
  ultimately show ?case by simp
qed

lemma normalize_length: "length (fst (snd (normalize fl tot as))) = length as"
  by (simp add: normalize_def)

lemma hold_still_frames_Inr:
  assumes "hold_still_frames fl h d s = Inr s'"
  shows "angles s' = angles s @ replicate (if 0 < h then nat \<lfloor>fl (h / d)\<rfloor> else 0) 0"
  using assms
  by (auto simp: hold_still_frames_def Let_def hold_loop_angles nat_py_int split: if_splits)

lemma assemble_Inr:
  assumes "assemble fl c L d h s = Inr p"
  shows "angles s \<noteq> []"
    and "frame_angles p =
           (fst (snd (normalize fl (total_angle s) (angles s))))[length (angles s) - 1 := 0] @
           replicate (if 0 < h then nat \<lfloor>fl (h / d)\<rfloor> else 0) 0"
    and "duration_ms p = py_int (fl (d * 1000))"
    and "printed p = fst (normalize fl (total_angle s) (angles s))"
    and "final_total_angle p = snd (snd (normalize fl (total_angle s) (angles s)))"
    and "num_frames p = length (frame_angles p)"
proof -
  obtain msgs as tot where n: "normalize fl (total_angle s) (angles s) = (msgs, as, tot)"
    by (cases "normalize fl (total_angle s) (angles s)") auto
  have len: "length as = length (angles s)"
    using normalize_length[of fl "total_angle s" "angles s"] n by simp
  from assms n obtain looped where l: "set_last as 0 = Inr looped"
    by (cases "set_last as 0") (auto simp: assemble_def)
  then have ne: "as \<noteq> []" and looped: "looped = as[length as - 1 := 0]"
    by (auto simp: set_last_def split: if_splits)
  from assms n l obtain hs where
    hs: "hold_still_frames fl h d (s\<lparr>angles := looped, total_angle := tot\<rparr>) = Inr hs"
    by (cases "hold_still_frames fl h d (s\<lparr>angles := looped, total_angle := tot\<rparr>)")
       (auto simp: assemble_def)
  from assms n l hs obtain speeds where sp: "progress_speeds c L 0 (times hs) = Inr speeds"
    by (cases "progress_speeds c L 0 (times hs)") (auto simp: assemble_def)
  have p: "p = \<lparr>frame_angles = angles hs, frame_times = times hs,
                duration_ms = py_int (fl (d * 1000)), num_frames = length (angles hs),
                num_rotations = fl (tot / 360), total_duration = fl (L + h),
                final_total_angle = tot, printed = msgs, reported_speeds = speeds\<rparr>"
    using assms n l hs sp by (simp add: assemble_def)
  show "angles s \<noteq> []" using ne len by auto
  show "frame_angles p =
           (fst (snd (normalize fl (total_angle s) (angles s))))[length (angles s) - 1 := 0] @
           replicate (if 0 < h then nat \<lfloor>fl (h / d)\<rfloor> else 0) 0"
    using hold_still_frames_Inr[OF hs] p n looped len by simp
  show "duration_ms p = py_int (fl (d * 1000))" using p by simp
  show "printed p = fst (normalize fl (total_angle s) (angles s))" using p n by simp
  show "final_total_angle p = snd (snd (normalize fl (total_angle s) (angles s)))"
    using p n by simp
  show "num_frames p = length (frame_angles p)" using p by simp
qed

lemma assemble_total:
  assumes ne: "angles s \<noteq> []"
    and d: "d \<noteq> 0 \<or> h \<le> 0"
    and total: "\<And>t. \<exists>v. c t L = Inr v"
  shows "\<exists>p. assemble fl c L d h s = Inr p"
proof -
  obtain msgs as tot where n: "normalize fl (total_angle s) (angles s) = (msgs, as, tot)"
    by (cases "normalize fl (total_angle s) (angles s)") auto
  have len: "length as = length (angles s)"
    using normalize_length[of fl "total_angle s" "angles s"] n by simp
  then have l: "set_last as 0 = Inr (as[length as - 1 := 0])"
    using ne by (auto simp: set_last_def)
  have "\<exists>hs. hold_still_frames fl h d
               (s\<lparr>angles := as[length as - 1 := 0], total_angle := tot\<rparr>) = Inr hs"
    using d by (cases "0 < h") (simp_all add: hold_still_frames_def Let_def)
  then obtain hs where
    hs: "hold_still_frames fl h d (s\<lparr>angles := as[length as - 1 := 0], total_angle := tot\<rparr>) = Inr hs"
    by blast
  obtain speeds where sp: "progress_speeds c L 0 (times hs) = Inr speeds"
    using progress_speeds_total[of c L 0 "times hs"] total by blast
  show ?thesis using n l hs sp by (simp add: assemble_def)
qed

lemma create_Inr:
  assumes "create_rotating_gif_spline fl c L d h = Some (Inr p)"
  shows "\<exists>s. integrate fl c L d initial = Some (Inr s) \<and> assemble fl c L d h s = Inr p"
  using assms unfolding create_rotating_gif_spline_def
  by (auto split: option.splits sum.splits)

lemma select_curve_error: "select_curve fl kind v0 k t L = Inl e \<Longrightarrow> e = ZeroDivisionError"
  by (cases kind)
     (simp_all add: exponential_slowdown_def exponential_slowdown_with_min_def
        linear_slowdown_def quadratic_slowdown_def cosine_slowdown_def smooth_stop_slowdown_def
        Let_def split: if_splits)

lemma progress_speeds_error:
  "progress_speeds c L i ts = Inl e \<Longrightarrow> \<exists>t. c t L = Inl e"
proof (induction ts arbitrary: i)
  case Nil
  then show ?case by simp
next
  case (Cons t ts)
  then show ?case
    by (auto split: if_splits sum.splits)
qed

lemma assemble_Inl:
  assumes "assemble fl c L d h s = Inl e"
  shows "(angles s = [] \<and> e = IndexError) \<or> (0 < h \<and> d = 0 \<and> e = ZeroDivisionError) \<or>
         (\<exists>t. c t L = Inl e)"
proof -
  obtain msgs as tot where n: "normalize fl (total_angle s) (angles s) = (msgs, as, tot)"
    by (cases "normalize fl (total_angle s) (angles s)") auto
  have len: "length as = length (angles s)"
    using normalize_length[of fl "total_angle s" "angles s"] n by simp
  show ?thesis
  proof (cases "set_last as 0")
    case (Inl e')
    then have "as = []" "e' = IndexError" by (auto simp: set_last_def split: if_splits)
    moreover have "e = e'" using assms n Inl by (simp add: assemble_def)
    ultimately show ?thesis using len by simp
  next
    case l: (Inr looped)
    show ?thesis
    proof (cases "hold_still_frames fl h d (s\<lparr>angles := looped, total_angle := tot\<rparr>)")
      case (Inl e')
      then have "0 < h" "d = 0" "e' = ZeroDivisionError"
        by (auto simp: hold_still_frames_def Let_def split: if_splits)
      moreover have "e = e'" using assms n l Inl by (simp add: assemble_def)
      ultimately show ?thesis by simp
    next
      case hs: (Inr hs)
      show ?thesis
      proof (cases "progress_speeds c L 0 (times hs)")
        case (Inl e')
        then have "\<exists>t. c t L = Inl e'" by (rule progress_speeds_error)
        moreover have "e = e'" using assms n l hs Inl by (simp add: assemble_def)
        ultimately show ?thesis by simp
      next
        case (Inr speeds)
        with assms n l hs show ?thesis by (simp add: assemble_def)
      qed
    qed
  qed
qed

lemma integrate_initial:
  assumes "integrate fl c L d initial = Some (Inr s)" and "0 \<le> L"
  shows "angles s \<noteq> []" "length (times s) = length (angles s)" "hd (times s) = 0" "hd (angles s) = 0"
proof -
  from integrate_extends[OF assms(1)] obtain xs ys where
    "angles s = angles initial @ xs" "times s = times initial @ ys" "length xs = length ys"
    "current_time initial \<le> L \<longrightarrow> xs \<noteq> [] \<and> hd xs = total_angle initial \<and> hd ys = current_time initial"
    by blast
  with assms(2) show "angles s \<noteq> []" "length (times s) = length (angles s)"
     "hd (times s) = 0" "hd (angles s) = 0"
    by (simp_all add: initial_def)
qed

lemma py_int_truncates:
  "\<bar>real_of_int (py_int y)\<bar> \<le> \<bar>y\<bar> \<and> \<bar>y\<bar> < \<bar>real_of_int (py_int y)\<bar> + 1"
proof (cases "0 \<le> y")
  case True
  then have "0 \<le> \<lfloor>y\<rfloor>" by simp
  with True show ?thesis unfolding py_int_def by (simp; linarith)
next
  case False
  then have "\<lceil>y\<rceil> \<le> 0" by (simp add: ceiling_le_iff)
  with False show ?thesis unfolding py_int_def by (simp; linarith)
qed

lemma closed_last:
  assumes "xs \<noteq> []"
  shows "last (xs[length xs - 1 := (0::real)] @ replicate r 0) = 0"
    and "(xs[length xs - 1 := (0::real)] @ replicate r 0) ! (length xs - 1) = 0"
proof -
  have n: "length xs - 1 < length xs" using assms by (cases xs) auto
  show "last (xs[length xs - 1 := 0] @ replicate r 0) = 0"
  proof (cases r)
    case 0
    with assms n show ?thesis by (simp add: last_list_update)
  next
    case (Suc m)
    then show ?thesis by simp
  qed
  show "(xs[length xs - 1 := 0] @ replicate r 0) ! (length xs - 1) = 0"
    using n by (simp add: nth_append)
qed

lemma plan_closed:
  assumes "assemble fl c L d h s = Inr p"
  shows "frames p \<noteq> []" "fst (last (frames p)) = 0" "frame_angles p ! (length (angles s) - 1) = 0"
proof -
  note p = assemble_Inr[OF assms]
  let ?xs = "fst (snd (normalize fl (total_angle s) (angles s)))"
  have len: "length ?xs = length (angles s)" by (rule normalize_length)
  with p(1) have ne: "?xs \<noteq> []" by auto
  show "frames p \<noteq> []" using p(2) ne by (simp add: frames_def)
  then have "fst (last (frames p)) = last (frame_angles p)"
    by (simp add: frames_def last_map)
  also have "\<dots> = 0" using closed_last(1)[OF ne] p(2) len by simp
  finally show "fst (last (frames p)) = 0" .
  show "frame_angles p ! (length (angles s) - 1) = 0"
    using closed_last(2)[OF ne] p(2) len by simp
qed

lemma py_round_nearest: "\<bar>x - real_of_int (py_round x)\<bar> \<le> 1 / 2"
  unfolding py_round_def Let_def by (simp; linarith)

lemma mod360_nonneg: "0 \<le> a \<Longrightarrow> mod360 fl a = a - 360 * real_of_int \<lfloor>a / 360\<rfloor>"
proof -
  assume a: "0 \<le> a"
  have "real_of_int \<lfloor>a / 360\<rfloor> \<le> a / 360" by (rule of_int_floor_le)
  then have "0 \<le> a - 360 * real_of_int \<lfloor>a / 360\<rfloor>" by linarith
  with a show ?thesis by (simp add: mod360_def py_int_def Let_def)
qed

section \<open>The sign of the curves\<close>

text \<open>
  Where no intermediate value leaves the range of the doubles (the roundings here have no
  bound on the exponent, so this says nothing of an overflow to \<open>inf\<close>, of \<open>nan\<close> or of
  an \<open>OverflowError\<close>), a positive animation length and a non-negative initial speed
  give a non-negative speed at every time for five of the curves: \<open>linear_slowdown\<close>
  clamps with \<open>max\<close>, \<open>cosine_slowdown\<close> clamps the phase with \<open>min\<close>, the others are
  squares or exponentials. The cubic of \<open>smooth_stop_slowdown\<close> has no clamp and is
  non-negative only up to the animation length.
\<close>

lemma curves_nonnegative:
  assumes fl: "monotone_rounding fl"
    and l: "0 < animation_length" and v: "0 \<le> initial_speed"
  shows "(\<exists>v. exponential_slowdown fl t animation_length initial_speed decay_factor = Inr v \<and> 0 \<le> v) \<and>
         (\<exists>v. exponential_slowdown_with_min fl t animation_length initial_speed decay_factor = Inr v
              \<and> 0 \<le> v) \<and>
         (\<exists>v. linear_slowdown fl t animation_length initial_speed = Inr v \<and> 0 \<le> v) \<and>
         (\<exists>v. quadratic_slowdown fl t animation_length initial_speed = Inr v \<and> 0 \<le> v) \<and>
         (\<exists>v. cosine_slowdown fl t animation_length initial_speed = Inr v \<and> 0 \<le> v) \<and>
         (t \<le> animation_length \<longrightarrow>
            (\<exists>v. smooth_stop_slowdown fl t animation_length initial_speed = Inr v \<and> 0 \<le> v))"
proof -
  note nn = rounding_nonneg[OF fl]
  have e: "0 \<le> fl (initial_speed * fl (exp x))" for x
    using v by (intro nn mult_nonneg_nonneg) simp_all
  have q: "0 \<le> fl (initial_speed * fl (y ^ 2))" for y :: real
    using v by (intro nn mult_nonneg_nonneg) simp_all
  have c: "0 \<le> fl (initial_speed * fl (fl (1 + fl (cos x)) / 2))" for x
  proof -
    have "- 1 \<le> fl (cos x)" by (intro rounding_ge_minus_one[OF fl]) simp
    then have "0 \<le> fl (1 + fl (cos x))" by (intro nn) simp
    then show ?thesis using v by (intro nn mult_nonneg_nonneg) simp_all
  qed
  have s: "0 \<le> fl (initial_speed * fl (fl (1 - fl (t / animation_length)) ^ 3))"
    if "t \<le> animation_length"
  proof -
    have "t / animation_length \<le> 1" using that l by simp
    then have "fl (t / animation_length) \<le> 1" by (rule rounding_le_one[OF fl])
    then have "0 \<le> fl (1 - fl (t / animation_length))" by (intro nn) simp
    then have "0 \<le> fl (1 - fl (t / animation_length)) ^ 3" by (rule zero_le_power)
    then have "0 \<le> fl (fl (1 - fl (t / animation_length)) ^ 3)" by (rule nn)
    with v have "0 \<le> initial_speed * fl (fl (1 - fl (t / animation_length)) ^ 3)"
      by (rule mult_nonneg_nonneg)
    then show ?thesis by (rule nn)
  qed
  have nz: "animation_length \<noteq> 0" using l by simp
  have 1: "\<exists>v. exponential_slowdown fl t animation_length initial_speed decay_factor = Inr v \<and> 0 \<le> v"
    unfolding exponential_slowdown_def Let_def using nz e by simp
  have 2: "\<exists>v. exponential_slowdown_with_min fl t animation_length initial_speed decay_factor = Inr v
              \<and> 0 \<le> v"
    unfolding exponential_slowdown_with_min_def Let_def using nz e by simp
  have 3: "\<exists>v. linear_slowdown fl t animation_length initial_speed = Inr v \<and> 0 \<le> v"
    unfolding linear_slowdown_def Let_def using nz by simp
  have 4: "\<exists>v. quadratic_slowdown fl t animation_length initial_speed = Inr v \<and> 0 \<le> v"
    unfolding quadratic_slowdown_def Let_def using nz q by simp
  have 5: "\<exists>v. cosine_slowdown fl t animation_length initial_speed = Inr v \<and> 0 \<le> v"
    unfolding cosine_slowdown_def Let_def using nz c by simp
  have 6: "\<exists>v. smooth_stop_slowdown fl t animation_length initial_speed = Inr v \<and> 0 \<le> v"
    if "t \<le> animation_length"
    unfolding smooth_stop_slowdown_def Let_def using nz s[OF that] by simp
  from 1 2 3 4 5 6 show ?thesis by blast
qed

section \<open>Runs that do not return a plan\<close>

text \<open>
  With a frame duration of 0 the clock stays at 0, and in exact arithmetic a negative frame
  duration moves it away from the animation length: the loop is never left.
\<close>

lemma frozen_clock_binary64:
  assumes "0 \<le> L" and "\<And>t. \<exists>v. c t L = Inr v"
  shows "integrate binary64 c L 0 initial = None"
proof (rule integrate_diverges[where I = "\<lambda>s. current_time s = 0"])
  show "current_time initial = 0" by (simp add: initial_def)
next
  fix s :: integrator and v
  assume "current_time s = 0"
  then show "current_time (advance binary64 0 v s) = 0"
    by (simp add: advance_def binary64_zero)
next
  fix s :: integrator
  assume "current_time s = 0"
  then show "current_time s \<le> L" using assms(1) by simp
next
  fix s :: integrator
  show "\<exists>v. c (current_time s) L = Inr v" using assms(2) by blast
qed

lemma backward_clock_exact:
  assumes "0 \<le> L" and "d \<le> 0" and "\<And>t. \<exists>v. c t L = Inr v"
  shows "integrate exact c L d initial = None"
proof (rule integrate_diverges[where I = "\<lambda>s. current_time s \<le> L"])
  show "current_time initial \<le> L" using assms(1) by (simp add: initial_def)
next
  fix s :: integrator and v
  assume "current_time s \<le> L"
  then show "current_time (advance exact d v s) \<le> L"
    using assms(2) by (simp add: advance_def exact_def)
next
  fix s :: integrator
  assume "current_time s \<le> L"
  then show "current_time s \<le> L" .
next
  fix s :: integrator
  show "\<exists>v. c (current_time s) L = Inr v" using assms(3) by blast
qed

lemma negative_length:
  assumes "L < 0"
  shows "create_rotating_gif_spline fl c L d h = Some (Inl IndexError)"
proof -
  have "integrate fl c L d initial = Some (Inr initial)"
    using assms by (subst integrate.simps) (simp add: initial_def)
  then show ?thesis
    by (simp add: create_rotating_gif_spline_def assemble_def normalize_def set_last_def initial_def)
qed

lemma zero_length:
  "create_rotating_gif_spline fl (select_curve fl kind v0 k) 0 d h = Some (Inl ZeroDivisionError)"
proof -
  have "integrate fl (select_curve fl kind v0 k) 0 d initial = Some (Inl ZeroDivisionError)"
    by (subst integrate.simps) (simp add: initial_def select_curve_zero del: select_curve.simps)
  then show ?thesis by (simp add: create_rotating_gif_spline_def del: select_curve.simps)
qed

section \<open>Counting in exact arithmetic\<close>

text \<open>
  Without rounding the clock after \<open>k\<close> passes is \<open>k * frame_duration\<close>, so the loop
  records \<open>\<lfloor>animation_length / frame_duration\<rfloor> + 1\<close> samples, and the hold-still
  extension appends \<open>\<lfloor>hold_still / frame_duration\<rfloor>\<close> frames.
\<close>

lemma sample_count_exact:
  assumes "0 < d" and "0 \<le> L" and "\<And>t. \<exists>v. c t L = Inr v"
  shows "\<exists>s. integrate exact c L d initial = Some (Inr s) \<and>
           length (angles s) = nat \<lfloor>L / d\<rfloor> + 1"
  using integrate_exact_run[of d L c initial] assms by (auto simp: initial_def)

lemma hold_still_frame_count:
  assumes "0 \<le> h" and "0 < d"
  shows "\<exists>s'. hold_still_frames fl h d s = Inr s' \<and>
           angles s' = angles s @ replicate (if h = 0 then 0 else nat \<lfloor>fl (h / d)\<rfloor>) 0 \<and>
           length (times s') = length (times s) + (if h = 0 then 0 else nat \<lfloor>fl (h / d)\<rfloor>)"
  using assms
  by (auto simp: hold_still_frames_def Let_def hold_loop_angles hold_loop_times nat_py_int)

lemma hold_three_tenths_exact:
  "map_sum id angles (hold_still_frames exact (3 / 10) (1 / 10) (initial\<lparr>angles := [0]\<rparr>))
     = Inr [0, 0, 0, 0]"
  by (simp add: hold_still_frames_def exact_def py_int_def initial_def eval_nat_numeral)


section \<open>Runs on concrete inputs\<close>

lemmas run_simps = integrate.simps advance_def initial_def linear_slowdown_def

lemmas plan_simps = assemble_def normalize_def scale_factor_def target_angle_def
  num_full_rotations_def mod360_def py_int_def set_last_def hold_still_frames_def

text \<open>The linear curve from 720 degrees per second, one second long, two frames per second.\<close>

lemma half_second_steps_binary64:
  "integrate binary64 (select_curve binary64 Linear 720 3) 1 (1 / 2) initial =
     Some (Inr \<lparr>times = [0, 1 / 2, 1], angles = [0, 360, 540],
                 current_time = 3 / 2, total_angle = 540\<rparr>)"
  by (simp add: run_simps b64)

lemma half_second_plan_binary64:
  "create_rotating_gif_spline binary64 (select_curve binary64 Linear 720 3) 1 (1 / 2) 0 =
     Some (Inr \<lparr>frame_angles = [0, 120, 0], frame_times = [0, 1 / 2, 1], duration_ms = 500,
       num_frames = 3, num_rotations = 2, total_duration = 1, final_total_angle = 720,
       printed = [], reported_speeds = [720]\<rparr>)"
  unfolding create_rotating_gif_spline_def half_second_steps_binary64
  by (simp add: plan_simps linear_slowdown_def b64)

text \<open>The same run in exact arithmetic.\<close>

lemma half_second_steps_exact:
  "integrate exact (select_curve exact Linear 720 3) 1 (1 / 2) initial =
     Some (Inr \<lparr>times = [0, 1 / 2, 1], angles = [0, 360, 540],
                 current_time = 3 / 2, total_angle = 540\<rparr>)"
  by (simp add: run_simps exact_def)

lemma half_second_plan_exact:
  "create_rotating_gif_spline exact (select_curve exact Linear 720 3) 1 (1 / 2) 0 =
     Some (Inr \<lparr>frame_angles = [0, 120, 0], frame_times = [0, 1 / 2, 1], duration_ms = 500,
       num_frames = 3, num_rotations = 2, total_duration = 1, final_total_angle = 720,
       printed = [], reported_speeds = [720]\<rparr>)"
  unfolding create_rotating_gif_spline_def half_second_steps_exact
  by (simp add: plan_simps linear_slowdown_def exact_def py_round_def)

text \<open>Three frames of 3/1024 seconds: 2.9296875 milliseconds each.\<close>

lemma three_steps_binary64:
  "integrate binary64 (select_curve binary64 Linear 720 3) (3 / 512) (3 / 1024) initial =
     Some (Inr \<lparr>times = [0, 3 / 1024, 3 / 512], angles = [0, 135 / 64, 405 / 128],
                 current_time = 9 / 1024, total_angle = 405 / 128\<rparr>)"
  by (simp add: run_simps b64)

lemma three_steps_plan_binary64:
  "create_rotating_gif_spline binary64 (select_curve binary64 Linear 720 3) (3 / 512) (3 / 1024) 0 =
     Some (Inr \<lparr>frame_angles = [0, 135 / 64, 0], frame_times = [0, 3 / 1024, 3 / 512],
       duration_ms = 2, num_frames = 3, num_rotations = 9 / 1024,
       total_duration = 3 / 512, final_total_angle = 405 / 128,
       printed = [PartialRotation (405 / 128)], reported_speeds = [720]\<rparr>)"
  unfolding create_rotating_gif_spline_def three_steps_binary64
  by (simp add: plan_simps linear_slowdown_def b64)

text \<open>The linear curve from 100 degrees per second, one second long, one frame per second.\<close>

lemma one_second_step_binary64:
  "integrate binary64 (select_curve binary64 Linear 100 3) 1 1 initial =
     Some (Inr \<lparr>times = [0, 1], angles = [0, 100], current_time = 2, total_angle = 100\<rparr>)"
  by (simp add: run_simps b64)

text \<open>
  The decimal literals of the next runs, as the doubles Python reads them: 0.8, 0.05, 0.3
  and 0.1.
\<close>

lemma decimal_inputs:
  "binary64 (4 / 5) = 3602879701896397 / 4503599627370496"
  "binary64 (1 / 20) = 3602879701896397 / 72057594037927936"
  "binary64 (3 / 10) = 5404319552844595 / 18014398509481984"
  "binary64 (1 / 10) = 3602879701896397 / 36028797018963968"
  by (simp_all add: b64)

text \<open>One second in steps of 0.1: eleven samples.\<close>

lemma tenth_second_steps_binary64:
  "map_option (map_sum id (\<lambda>s. length (angles s)))
     (integrate binary64 (select_curve binary64 Linear 720 3) 1 (binary64 (1 / 10)) initial)
     = Some (Inr 11)"
  unfolding decimal_inputs
  by (simp add: run_simps b64)

text \<open>
  The smooth-stop curve from 720 degrees per second, one second long, eight frames per
  second, held still for two seconds: 9 samples and 16 hold-still frames.
\<close>

lemma eighth_second_steps_binary64:
  "integrate binary64 (select_curve binary64 SmoothStop 720 3) 1 (1 / 8) initial =
     Some (Inr \<lparr>times = [0, 1 / 8, 1 / 4, 3 / 8, 1 / 2, 5 / 8, 3 / 4, 7 / 8, 1],
                 angles = [0, 90, 38475 / 256, 48195 / 256, 13455 / 64, 14175 / 64,
                           57915 / 256, 58275 / 256, 3645 / 16],
                 current_time = 9 / 8, total_angle = 3645 / 16\<rparr>)"
  by (simp add: integrate.simps advance_def initial_def smooth_stop_slowdown_def power3_eq_cube b64)

lemma two_second_hold_binary64:
  "hold_still_frames binary64 2 (1 / 8)
     \<lparr>times = [0, 1 / 8, 1 / 4, 3 / 8, 1 / 2, 5 / 8, 3 / 4, 7 / 8, 1],
      angles = [0, 90, 38475 / 256, 48195 / 256, 13455 / 64, 14175 / 64,
                57915 / 256, 58275 / 256, 0],
      current_time = 9 / 8, total_angle = 3645 / 16\<rparr> =
   Inr \<lparr>times = [0, 1 / 8, 1 / 4, 3 / 8, 1 / 2, 5 / 8, 3 / 4, 7 / 8, 1, 9 / 8, 5 / 4, 11 / 8,
                 3 / 2, 13 / 8, 7 / 4, 15 / 8, 2, 17 / 8, 9 / 4, 19 / 8, 5 / 2, 21 / 8, 11 / 4,
                 23 / 8, 3],
        angles = [0, 90, 38475 / 256, 48195 / 256, 13455 / 64, 14175 / 64,
                  57915 / 256, 58275 / 256, 0, 0, 0, 0, 0, 0, 0, 0, 0, 0, 0, 0, 0, 0, 0, 0, 0],
        current_time = 25 / 8, total_angle = 3645 / 16\<rparr>"
  by (simp add: hold_still_frames_def py_int_def eval_nat_numeral b64)

lemma hold_progress_binary64:
  "progress_speeds (select_curve binary64 SmoothStop 720 3) 1 0
     [0, 1 / 8, 1 / 4, 3 / 8, 1 / 2, 5 / 8, 3 / 4, 7 / 8, 1, 9 / 8, 5 / 4, 11 / 8,
      3 / 2, 13 / 8, 7 / 4, 15 / 8, 2, 17 / 8, 9 / 4, 19 / 8, 5 / 2, 21 / 8, 11 / 4,
      23 / 8, 3] = Inr [720, - 59895 / 32]"
  by (simp add: smooth_stop_slowdown_def power3_eq_cube b64)

section \<open>The claims\<close>

text \<open>
  C1. For each of the six curves and every positive animation length and frame duration
  the run, in exact arithmetic, returns a plan whose last frame has angle 0, and the last
  sample of the integration, at index \<open>\<lfloor>animation_length / frame_duration\<rfloor>\<close>, has
  angle 0. Whatever the rounding and the curve, a plan that is returned is not empty, its
  last frame has angle 0, and so has the frame of the last sample: line 81 overwrites what
  either branch of the normalisation left there.
\<close>

theorem last_frame_angle_zero:
  assumes "0 < animation_length" and "0 < frame_duration"
  shows "(\<exists>p. create_rotating_gif_spline exact (select_curve exact kind initial_speed decay_factor)
                animation_length frame_duration hold_still = Some (Inr p) \<and>
              frames p \<noteq> [] \<and> fst (last (frames p)) = 0 \<and>
              frame_angles p ! nat \<lfloor>animation_length / frame_duration\<rfloor> = 0) \<and>
         (\<forall>fl slowdown_curve p.
              create_rotating_gif_spline fl slowdown_curve animation_length frame_duration hold_still
                = Some (Inr p) \<longrightarrow>
              frames p \<noteq> [] \<and> fst (last (frames p)) = 0 \<and>
              (\<exists>s. integrate fl slowdown_curve animation_length frame_duration initial = Some (Inr s) \<and>
                   frame_angles p ! (length (angles s) - 1) = 0))"
proof (intro conjI allI impI)
  let ?c = "select_curve exact kind initial_speed decay_factor"
  have total: "\<exists>v. ?c t animation_length = Inr v" for t
    using select_curve_total[of animation_length] assms(1) by simp
  from integrate_exact_run[of frame_duration animation_length ?c initial] assms(2) total
  obtain s where run: "integrate exact ?c animation_length frame_duration initial = Some (Inr s)"
    and len: "length (angles s) = nat \<lfloor>animation_length / frame_duration\<rfloor> + 1"
    using assms(1) by (auto simp: initial_def)
  have "angles s \<noteq> []" using len by auto
  from assemble_total[OF this, of frame_duration hold_still ?c animation_length exact] total assms(2)
  obtain p where a: "assemble exact ?c animation_length frame_duration hold_still s = Inr p"
    by auto
  have "create_rotating_gif_spline exact ?c animation_length frame_duration hold_still = Some (Inr p)"
    using run a by (simp add: create_rotating_gif_spline_def)
  moreover note plan_closed[OF a]
  ultimately show "\<exists>p. create_rotating_gif_spline exact ?c animation_length frame_duration hold_still
        = Some (Inr p) \<and> frames p \<noteq> [] \<and> fst (last (frames p)) = 0 \<and>
        frame_angles p ! nat \<lfloor>animation_length / frame_duration\<rfloor> = 0"
    using len by auto
next
  fix fl slowdown_curve p
  assume "create_rotating_gif_spline fl slowdown_curve animation_length frame_duration hold_still
            = Some (Inr p)"
  from create_Inr[OF this] obtain s where
    run: "integrate fl slowdown_curve animation_length frame_duration initial = Some (Inr s)" and
    a: "assemble fl slowdown_curve animation_length frame_duration hold_still s = Inr p"
    by blast
  show "frames p \<noteq> []" "fst (last (frames p)) = 0"
    using plan_closed[OF a] by simp_all
  show "\<exists>s. integrate fl slowdown_curve animation_length frame_duration initial = Some (Inr s) \<and>
          frame_angles p ! (length (angles s) - 1) = 0"
    using run plan_closed(3)[OF a] by blast
qed

theorem last_frame_angle_zero_witness:
  "(0::real) < 1 \<and> (0::real) < 1 / 2 \<and>
   create_rotating_gif_spline exact (select_curve exact Linear 720 3) 1 (1 / 2) 0 =
     Some (Inr \<lparr>frame_angles = [0, 120, 0], frame_times = [0, 1 / 2, 1], duration_ms = 500,
       num_frames = 3, num_rotations = 2, total_duration = 1, final_total_angle = 720,
       printed = [], reported_speeds = [720]\<rparr>) \<and>
   create_rotating_gif_spline binary64 (select_curve binary64 Linear 720 3) 1 (1 / 2) 0 =
     Some (Inr \<lparr>frame_angles = [0, 120, 0], frame_times = [0, 1 / 2, 1], duration_ms = 500,
       num_frames = 3, num_rotations = 2, total_duration = 1, final_total_angle = 720,
       printed = [], reported_speeds = [720]\<rparr>) \<and>
   fst (last (frames \<lparr>frame_angles = [0, 120, 0], frame_times = [0, 1 / 2, 1], duration_ms = 500,
       num_frames = 3, num_rotations = 2, total_duration = 1, final_total_angle = 720,
       printed = [], reported_speeds = [720]\<rparr>)) = 0"
proof -
  have l: "(0::real) < 1" and d: "(0::real) < 1 / 2" by simp_all
  from last_frame_angle_zero[OF l d, of Linear 720 3 0] half_second_plan_exact
  have "fst (last (frames \<lparr>frame_angles = [0, 120, 0], frame_times = [0, 1 / 2, 1],
       duration_ms = 500, num_frames = 3, num_rotations = 2, total_duration = 1,
       final_total_angle = 720, printed = [], reported_speeds = [720]\<rparr>)) = 0"
    by blast
  with half_second_plan_exact half_second_plan_binary64 show ?thesis by simp
qed

text \<open>
  C2 as the spec states it does not hold. With the linear curve, \<open>initial_speed = 720\<close>,
  \<open>animation_length = 1.0\<close> and \<open>frame_duration = 0.5\<close> the raw angles are not
  \<open>[0, 360]\<close>, the total is not 360 and the plan is not the two frames
  \<open>[(0, 500), (0, 500)]\<close>.
\<close>

theorem scenario_A_counterexample:
  "map_option (map_sum id angles)
      (integrate binary64 (select_curve binary64 Linear 720 3) 1 (1 / 2) initial)
     \<noteq> Some (Inr [0, 360]) \<and>
   map_option (map_sum id total_angle)
      (integrate binary64 (select_curve binary64 Linear 720 3) 1 (1 / 2) initial)
     \<noteq> Some (Inr 360) \<and>
   map_option (map_sum id frames)
      (create_rotating_gif_spline binary64 (select_curve binary64 Linear 720 3) 1 (1 / 2) 0)
     \<noteq> Some (Inr [(0, 500), (0, 500)])"
  unfolding half_second_steps_binary64 half_second_plan_binary64
  by (simp add: frames_def)

text \<open>
  C2, amended. The loop also records the sample at time 1.0: the raw angles are
  \<open>[0, 360, 540]\<close> and the total is 540, which rounds to 2 rotations, a target of 720 and
  a scale factor of 4/3 (the double 1.3333333333333333); the plan is the three frames
  \<open>[(0, 500), (120, 500), (0, 500)]\<close>, with binary64 rounding and in exact arithmetic.
\<close>

theorem scenario_A:
  "integrate binary64 (select_curve binary64 Linear 720 3) 1 (1 / 2) initial =
     Some (Inr \<lparr>times = [0, 1 / 2, 1], angles = [0, 360, 540],
                 current_time = 3 / 2, total_angle = 540\<rparr>) \<and>
   num_full_rotations binary64 540 = 2 \<and>
   target_angle binary64 540 = 720 \<and>
   scale_factor binary64 540 = 6004799503160661 / 4503599627370496 \<and>
   scale_factor exact 540 = 4 / 3 \<and>
   map_option (map_sum id frames)
      (create_rotating_gif_spline binary64 (select_curve binary64 Linear 720 3) 1 (1 / 2) 0)
     = Some (Inr [(0, 500), (120, 500), (0, 500)]) \<and>
   map_option (map_sum id frames)
      (create_rotating_gif_spline exact (select_curve exact Linear 720 3) 1 (1 / 2) 0)
     = Some (Inr [(0, 500), (120, 500), (0, 500)])"
proof -
  have n: "num_full_rotations binary64 540 = 2" "num_full_rotations exact 540 = 2"
    by (simp_all add: num_full_rotations_def exact_def b64)
  have t: "target_angle binary64 540 = 720" "target_angle exact 540 = 720"
    by (simp_all add: target_angle_def n exact_def b64)
  have s: "scale_factor binary64 540 = 6004799503160661 / 4503599627370496"
    "scale_factor exact 540 = 4 / 3"
    by (simp_all add: scale_factor_def t exact_def b64)
  show ?thesis
    unfolding half_second_steps_binary64 half_second_plan_binary64 half_second_plan_exact
    using n t s by (simp add: frames_def)
qed

text \<open>
  C3. With \<open>270 \<le> total_angle\<close> the second branch runs: \<open>num_full_rotations\<close> is
  \<open>round(total_angle / 360)\<close>, the target is that many times 360, the scale factor is the
  target over the total, every raw angle is multiplied by it and then taken modulo 360, and
  the total becomes the target. In exact arithmetic the rounded number of rotations is
  within one half of \<open>total_angle / 360\<close>, and the total multiplied by the scale factor
  is 360 times that integer. With binary64 rounding the new total is 360 times the number
  of rotations without any error, as long as that product is below \<open>2 ^ 53\<close>.
\<close>

theorem rescaled_to_full_rotations:
  assumes "270 \<le> tot"
  shows "normalize fl tot as =
           ([], map (mod360 fl) (map (\<lambda>angle. fl (angle * scale_factor fl tot)) as),
            target_angle fl tot) \<and>
         num_full_rotations fl tot = py_round (fl (tot / 360)) \<and>
         target_angle fl tot = fl (fl (of_int (num_full_rotations fl tot)) * 360) \<and>
         scale_factor fl tot = fl (target_angle fl tot / tot) \<and>
         \<bar>tot / 360 - real_of_int (num_full_rotations exact tot)\<bar> \<le> 1 / 2 \<and>
         target_angle exact tot = 360 * real_of_int (num_full_rotations exact tot) \<and>
         tot * scale_factor exact tot = 360 * real_of_int (num_full_rotations exact tot) \<and>
         (\<bar>num_full_rotations binary64 tot\<bar> * 360 < 2 ^ 53 \<longrightarrow>
            target_angle binary64 tot = 360 * real_of_int (num_full_rotations binary64 tot))"
proof -
  have "tot \<noteq> 0" using assms by simp
  then have general: "normalize fl tot as =
           ([], map (mod360 fl) (map (\<lambda>angle. fl (angle * scale_factor fl tot)) as),
            target_angle fl tot) \<and>
         num_full_rotations fl tot = py_round (fl (tot / 360)) \<and>
         target_angle fl tot = fl (fl (of_int (num_full_rotations fl tot)) * 360) \<and>
         scale_factor fl tot = fl (target_angle fl tot / tot) \<and>
         \<bar>tot / 360 - real_of_int (num_full_rotations exact tot)\<bar> \<le> 1 / 2 \<and>
         target_angle exact tot = 360 * real_of_int (num_full_rotations exact tot) \<and>
         tot * scale_factor exact tot = 360 * real_of_int (num_full_rotations exact tot)"
    using assms py_round_nearest[of "tot / 360"]
    by (simp add: normalize_def scale_factor_def target_angle_def num_full_rotations_def exact_def)
  have "target_angle binary64 tot = 360 * real_of_int (num_full_rotations binary64 tot)"
    if small: "\<bar>num_full_rotations binary64 tot\<bar> * 360 < 2 ^ 53"
  proof -
    define n where "n = num_full_rotations binary64 tot"
    have "\<bar>n\<bar> < 2 ^ 53" "\<bar>n * 360\<bar> < 2 ^ 53"
      using small unfolding n_def by (simp_all add: abs_mult)
    then have "binary64 (real_of_int n) = real_of_int n"
      "binary64 (real_of_int (n * 360)) = real_of_int (n * 360)"
      by (simp_all only: binary64_of_int)
    then show ?thesis
      unfolding target_angle_def n_def[symmetric] by simp
  qed
  with general show ?thesis by blast
qed

theorem rescaled_to_full_rotations_witness:
  "(270::real) \<le> 540 \<and>
   normalize binary64 540 [0, 360, 540] = ([], [0, 120, 0], 720) \<and>
   num_full_rotations binary64 540 = 2 \<and>
   scale_factor binary64 540 = 6004799503160661 / 4503599627370496 \<and>
   scale_factor exact 540 = 4 / 3 \<and>
   540 * scale_factor exact 540 = 720 \<and>
   target_angle binary64 540 = 720"
proof -
  have h: "(270::real) \<le> 540" by simp
  note t = rescaled_to_full_rotations[OF h, of binary64 "[0, 360, 540]"]
  have n: "num_full_rotations binary64 540 = 2" "num_full_rotations exact 540 = 2"
    by (simp_all add: num_full_rotations_def exact_def b64)
  have s: "scale_factor binary64 540 = 6004799503160661 / 4503599627370496"
    by (simp add: scale_factor_def target_angle_def n b64)
  have "normalize binary64 540 [0, 360, 540] = ([], [0, 120, 0], 720)"
    using t by (simp add: s target_angle_def n mod360_def py_int_def b64)
  moreover have "scale_factor exact 540 = 4 / 3" "540 * scale_factor exact 540 = 720"
    using t n by simp_all
  moreover have "target_angle binary64 540 = 720"
    using t n by simp
  ultimately show ?thesis using n s by simp
qed

text \<open>
  C4 as the spec states it does not hold: nothing checks the parameters. A frame duration
  of 0 gives a run that never returns, an animation length of 0 fails in the curve after the
  first sample was recorded, and a negative animation length fails at line 81.
\<close>

theorem zero_frame_duration_counterexample:
  "create_rotating_gif_spline binary64 (select_curve binary64 Linear 720 3) 1 0 0 = None \<and>
   create_rotating_gif_spline binary64 (select_curve binary64 Linear 720 3) 0 (1 / 2) 0
     = Some (Inl ZeroDivisionError) \<and>
   create_rotating_gif_spline binary64 (select_curve binary64 Linear 720 3) (- 1) (1 / 2) 0
     = Some (Inl IndexError)"
proof -
  have "\<exists>v. select_curve binary64 Linear 720 3 t 1 = Inr v" for t
    by (rule select_curve_total) simp
  then have "integrate binary64 (select_curve binary64 Linear 720 3) 1 0 initial = None"
    by (intro frozen_clock_binary64) simp_all
  then have "create_rotating_gif_spline binary64 (select_curve binary64 Linear 720 3) 1 0 0 = None"
    by (simp add: create_rotating_gif_spline_def del: select_curve.simps)
  then show ?thesis
    using zero_length[of binary64 Linear 720 3 "1 / 2" 0]
      negative_length[of "- 1" binary64 "select_curve binary64 Linear 720 3" "1 / 2" 0]
    by (simp del: select_curve.simps)
qed

text \<open>
  C4, amended. No plan is returned for these parameters, but no check reports it: with a
  negative animation length the loop body never runs and line 81 raises \<open>IndexError\<close>;
  with an animation length of 0 each of the six curves raises \<open>ZeroDivisionError\<close> on its
  first call; with a positive animation length the run never leaves the loop when the frame
  duration is 0, and in exact arithmetic when it is negative.
\<close>

theorem no_parameter_validation:
  "(animation_length < 0 \<longrightarrow>
      create_rotating_gif_spline fl slowdown_curve animation_length frame_duration hold_still
        = Some (Inl IndexError)) \<and>
   (animation_length = 0 \<longrightarrow>
      create_rotating_gif_spline fl (select_curve fl kind initial_speed decay_factor)
        animation_length frame_duration hold_still = Some (Inl ZeroDivisionError)) \<and>
   (0 < animation_length \<and> frame_duration = 0 \<longrightarrow>
      create_rotating_gif_spline binary64 (select_curve binary64 kind initial_speed decay_factor)
        animation_length frame_duration hold_still = None) \<and>
   (0 < animation_length \<and> frame_duration \<le> 0 \<longrightarrow>
      create_rotating_gif_spline exact (select_curve exact kind initial_speed decay_factor)
        animation_length frame_duration hold_still = None)"
proof (intro conjI impI)
  assume "animation_length < 0"
  then show "create_rotating_gif_spline fl slowdown_curve animation_length frame_duration hold_still
        = Some (Inl IndexError)"
    by (rule negative_length)
next
  assume "animation_length = 0"
  then show "create_rotating_gif_spline fl (select_curve fl kind initial_speed decay_factor)
        animation_length frame_duration hold_still = Some (Inl ZeroDivisionError)"
    using zero_length by simp
next
  assume a: "0 < animation_length \<and> frame_duration = 0"
  then have "\<exists>v. select_curve binary64 kind initial_speed decay_factor t animation_length = Inr v" for t
    using select_curve_total[of animation_length] by simp
  with a have "integrate binary64 (select_curve binary64 kind initial_speed decay_factor)
      animation_length frame_duration initial = None"
    using frozen_clock_binary64[of animation_length] by simp
  then show "create_rotating_gif_spline binary64 (select_curve binary64 kind initial_speed decay_factor)
        animation_length frame_duration hold_still = None"
    by (simp add: create_rotating_gif_spline_def del: select_curve.simps)
next
  assume a: "0 < animation_length \<and> frame_duration \<le> 0"
  then have "\<exists>v. select_curve exact kind initial_speed decay_factor t animation_length = Inr v" for t
    using select_curve_total[of animation_length] by simp
  with a have "integrate exact (select_curve exact kind initial_speed decay_factor)
      animation_length frame_duration initial = None"
    using backward_clock_exact[of animation_length frame_duration] by simp
  then show "create_rotating_gif_spline exact (select_curve exact kind initial_speed decay_factor)
        animation_length frame_duration hold_still = None"
    by (simp add: create_rotating_gif_spline_def del: select_curve.simps)
qed

theorem no_parameter_validation_witness:
  "(- 2 :: real) < 0 \<and>
   create_rotating_gif_spline exact (select_curve exact Cosine 720 3) (- 2) (1 / 20) 1
     = Some (Inl IndexError) \<and>
   create_rotating_gif_spline exact (select_curve exact Cosine 720 3) 0 (1 / 20) 1
     = Some (Inl ZeroDivisionError) \<and>
   (0 :: real) < 2 \<and> (- 1 / 20 :: real) \<le> 0 \<and>
   create_rotating_gif_spline binary64 (select_curve binary64 Cosine 720 3) 2 0 1 = None \<and>
   create_rotating_gif_spline exact (select_curve exact Cosine 720 3) 2 (- 1 / 20) 1 = None"
proof -
  note a = no_parameter_validation[where animation_length = "- 2" and fl = exact
      and slowdown_curve = "select_curve exact Cosine 720 3" and frame_duration = "1 / 20"
      and hold_still = 1]
  note b = no_parameter_validation[where animation_length = 0 and fl = exact
      and kind = Cosine and initial_speed = 720 and decay_factor = 3 and frame_duration = "1 / 20"
      and hold_still = 1]
  note c = no_parameter_validation[where animation_length = 2 and frame_duration = 0
      and kind = Cosine and initial_speed = 720 and decay_factor = 3 and hold_still = 1]
  note d = no_parameter_validation[where animation_length = 2 and frame_duration = "- 1 / 20"
      and kind = Cosine and initial_speed = 720 and decay_factor = 3 and hold_still = 1]
  from a b c d show ?thesis by (simp del: select_curve.simps)
qed

text \<open>
  C5 at \<open>animation_length = 0.8\<close> and \<open>frame_duration = 0.05\<close>, the default frame
  duration. The clock is a sum of rounded additions: after 16 passes it is
  0.8000000000000002, above the animation length, so the loop records 16 samples, while
  \<open>\<lfloor>animation_length / frame_duration\<rfloor> + 1\<close> is 17, for the exact quotient of the two
  doubles and for their rounded quotient. (\<open>sample_count_exact\<close> above is the claim
  in exact arithmetic.)
\<close>

theorem sixteen_samples:
  "map_option (map_sum id (\<lambda>s. (length (angles s), current_time s)))
     (integrate binary64 (select_curve binary64 Linear 720 3)
        (binary64 (4 / 5)) (binary64 (1 / 20)) initial)
     = Some (Inr (16, 7205759403792795 / 9007199254740992)) \<and>
   binary64 (4 / 5) < 7205759403792795 / 9007199254740992 \<and>
   nat \<lfloor>binary64 (4 / 5) / binary64 (1 / 20)\<rfloor> + 1 = 17 \<and>
   nat \<lfloor>binary64 (binary64 (4 / 5) / binary64 (1 / 20))\<rfloor> + 1 = 17"
  unfolding decimal_inputs
  by (simp add: run_simps b64)

text \<open>
  C6 at \<open>hold_still = 0.3\<close> and \<open>frame_duration = 0.1\<close>. The quotient of the two
  doubles rounds to 2.9999999999999996, \<open>int\<close> truncates it to 2, and two frames are
  appended, not three: after a one second animation the plan has 11 + 2 = 13 frames.
  (\<open>hold_still_frame_count\<close> and \<open>hold_three_tenths_exact\<close> above are the claim for
  any rounding of the quotient and in exact arithmetic.)
\<close>

theorem hold_three_tenths:
  "binary64 (binary64 (3 / 10) / binary64 (1 / 10)) = 3 - 1 / 2 ^ 51 \<and>
   py_int (binary64 (binary64 (3 / 10) / binary64 (1 / 10))) = 2 \<and>
   map_sum id angles
     (hold_still_frames binary64 (binary64 (3 / 10)) (binary64 (1 / 10)) (initial\<lparr>angles := [0]\<rparr>))
     = Inr [0, 0, 0] \<and>
   map_option (map_sum id num_frames)
     (create_rotating_gif_spline binary64 (select_curve binary64 Linear 720 3)
        1 (binary64 (1 / 10)) (binary64 (3 / 10))) = Some (Inr 13)"
proof -
  have q: "binary64 (binary64 (3 / 10) / binary64 (1 / 10)) = 3 - 1 / 2 ^ 51"
    unfolding decimal_inputs by (simp add: b64)
  have i: "py_int (binary64 (binary64 (3 / 10) / binary64 (1 / 10))) = 2"
    unfolding q by (simp add: py_int_def)
  have pos: "0 < binary64 (3 / 10)" unfolding decimal_inputs by simp
  have d: "binary64 (1 / 10) \<noteq> 0" unfolding decimal_inputs by simp
  have h: "map_sum id angles
     (hold_still_frames binary64 (binary64 (3 / 10)) (binary64 (1 / 10)) (initial\<lparr>angles := [0]\<rparr>))
     = Inr [0, 0, 0]"
    using pos d
    by (simp add: hold_still_frames_def hold_loop_angles i initial_def eval_nat_numeral)
  obtain r where r: "integrate binary64 (select_curve binary64 Linear 720 3) 1 (binary64 (1 / 10)) initial = Some r"
    using tenth_second_steps_binary64 by (auto simp del: select_curve.simps)
  then obtain s where s: "r = Inr s" "length (angles s) = 11"
    using tenth_second_steps_binary64 by (cases r) (auto simp del: select_curve.simps)
  have total: "\<exists>v. select_curve binary64 Linear 720 3 t 1 = Inr v" for t
    by (rule select_curve_total) simp
  have "angles s \<noteq> []" using s(2) by auto
  from assemble_total[OF this, of "binary64 (1 / 10)" "binary64 (3 / 10)"
      "select_curve binary64 Linear 720 3" 1 binary64] total d
  obtain p where p: "assemble binary64 (select_curve binary64 Linear 720 3) 1 (binary64 (1 / 10))
        (binary64 (3 / 10)) s = Inr p"
    by blast
  have "num_frames p = 13"
    using assemble_Inr(2,6)[OF p] normalize_length[of binary64 "total_angle s" "angles s"]
      s(2) pos q
    by simp
  then have "map_option (map_sum id num_frames)
     (create_rotating_gif_spline binary64 (select_curve binary64 Linear 720 3)
        1 (binary64 (1 / 10)) (binary64 (3 / 10))) = Some (Inr 13)"
    using r s(1) p by (simp add: create_rotating_gif_spline_def del: select_curve.simps)
  with q i h show ?thesis by simp
qed

text \<open>
  C7 at a time the run itself reaches. With \<open>animation_length = 1\<close>,
  \<open>frame_duration = 0.125\<close> and \<open>hold_still = 2\<close> the plan has 25 frames, and the
  rendering loop calls the curve for the twentieth, a hold-still frame at \<open>t = 2.375\<close>,
  past the end of the animation. There \<open>smooth_stop_slowdown\<close>, from the default
  initial speed of 720, returns -1871.71875, a negative speed, which the run prints.
\<close>

theorem smooth_stop_reported_negative:
  "smooth_stop_slowdown binary64 (19 / 8) 1 720 = Inr (- 59895 / 32) \<and>
   map_option (map_sum id (\<lambda>p. (num_frames p, frame_times p ! 19, reported_speeds p)))
     (create_rotating_gif_spline binary64 (select_curve binary64 SmoothStop 720 3) 1 (1 / 8) 2) =
     Some (Inr (25, 19 / 8, [720, - 59895 / 32]))"
proof -
  let ?raw = "[0, 90, 38475 / 256, 48195 / 256, 13455 / 64, 14175 / 64,
               57915 / 256, 58275 / 256, 3645 / 16 :: real]"
  have v: "smooth_stop_slowdown binary64 (19 / 8) 1 720 = Inr (- 59895 / 32)"
    by (simp add: smooth_stop_slowdown_def power3_eq_cube b64)
  have n: "normalize binary64 (3645 / 16) ?raw = ([PartialRotation (3645 / 16)], ?raw, 3645 / 16)"
    by (simp add: normalize_def mod360_def py_int_def)
  have l: "set_last ?raw 0 =
      Inr [0, 90, 38475 / 256, 48195 / 256, 13455 / 64, 14175 / 64, 57915 / 256, 58275 / 256, 0]"
    by (simp add: set_last_def)
  have "map_sum id (\<lambda>p. (num_frames p, frame_times p ! 19, reported_speeds p))
     (assemble binary64 (select_curve binary64 SmoothStop 720 3) 1 (1 / 8) 2
        \<lparr>times = [0, 1 / 8, 1 / 4, 3 / 8, 1 / 2, 5 / 8, 3 / 4, 7 / 8, 1], angles = ?raw,
         current_time = 9 / 8, total_angle = 3645 / 16\<rparr>) = Inr (25, 19 / 8, [720, - 59895 / 32])"
    by (simp add: assemble_def n l two_second_hold_binary64 hold_progress_binary64
        del: select_curve.simps progress_speeds.simps)
  then show ?thesis
    using v by (simp add: create_rotating_gif_spline_def eighth_second_steps_binary64
        del: select_curve.simps)
qed

text \<open>
  C8. When the integration ends with a total below 270 degrees, the angles are not
  rescaled: each is taken modulo 360 (for a non-negative angle that is
  \<open>a - 360 * \<lfloor>a / 360\<rfloor>\<close>), the total stays, the two lines of the note are printed, and
  the run does not fail: with any of the six curves it returns a plan, whose frames before
  the last sample carry those angles.
\<close>

theorem partial_rotation_kept:
  assumes run: "integrate fl (select_curve fl kind initial_speed decay_factor)
                  animation_length frame_duration initial = Some (Inr s)"
    and small: "total_angle s < 270"
    and l: "0 < animation_length" and d: "0 < frame_duration"
  shows "normalize fl (total_angle s) (angles s) =
           ([PartialRotation (total_angle s)], map (mod360 fl) (angles s), total_angle s) \<and>
         (\<forall>a. 0 \<le> a \<longrightarrow> mod360 fl a = a - 360 * real_of_int \<lfloor>a / 360\<rfloor>) \<and>
         (\<exists>p. create_rotating_gif_spline fl (select_curve fl kind initial_speed decay_factor)
                 animation_length frame_duration hold_still = Some (Inr p) \<and>
              printed p = [PartialRotation (total_angle s)] \<and>
              final_total_angle p = total_angle s \<and>
              (\<forall>i < length (angles s) - 1. frame_angles p ! i = mod360 fl (angles s ! i)))"
proof -
  let ?c = "select_curve fl kind initial_speed decay_factor"
  have n: "normalize fl (total_angle s) (angles s) =
             ([PartialRotation (total_angle s)], map (mod360 fl) (angles s), total_angle s)"
    using small by (simp add: normalize_def)
  have total: "\<exists>v. ?c t animation_length = Inr v" for t
    using select_curve_total[of animation_length] l by simp
  have ne: "angles s \<noteq> []" using integrate_initial(1)[OF run] l by simp
  from assemble_total[OF ne, of frame_duration hold_still ?c animation_length fl] total d
  obtain p where a: "assemble fl ?c animation_length frame_duration hold_still s = Inr p"
    by auto
  note p = assemble_Inr[OF a]
  have "frame_angles p ! i = mod360 fl (angles s ! i)" if "i < length (angles s) - 1" for i
  proof -
    from that have "i < length (angles s)" "i \<noteq> length (angles s) - 1" by simp_all
    then show ?thesis using p(2) n by (simp add: nth_append)
  qed
  then show ?thesis
    using n run a p(4,5) mod360_nonneg by (auto simp: create_rotating_gif_spline_def)
qed

theorem partial_rotation_kept_witness:
  "integrate binary64 (select_curve binary64 Linear 100 3) 1 1 initial =
     Some (Inr \<lparr>times = [0, 1], angles = [0, 100], current_time = 2, total_angle = 100\<rparr>) \<and>
   (100::real) < 270 \<and> (0::real) < 1 \<and>
   normalize binary64 100 [0, 100] = ([PartialRotation 100], [0, 100], 100) \<and>
   create_rotating_gif_spline binary64 (select_curve binary64 Linear 100 3) 1 1 0 =
     Some (Inr \<lparr>frame_angles = [0, 0], frame_times = [0, 1], duration_ms = 1000,
       num_frames = 2, num_rotations = binary64 (5 / 18), total_duration = 1,
       final_total_angle = 100, printed = [PartialRotation 100], reported_speeds = [100]\<rparr>)"
proof -
  have l: "(0::real) < 1" by simp
  note t = partial_rotation_kept[OF one_second_step_binary64 _ l l, of 0]
  have "normalize binary64 100 [0, 100] = ([PartialRotation 100], [0, 100], 100)"
    using t by (simp add: mod360_def py_int_def)
  moreover have "create_rotating_gif_spline binary64 (select_curve binary64 Linear 100 3) 1 1 0 =
     Some (Inr \<lparr>frame_angles = [0, 0], frame_times = [0, 1], duration_ms = 1000,
       num_frames = 2, num_rotations = binary64 (5 / 18), total_duration = 1,
       final_total_angle = 100, printed = [PartialRotation 100], reported_speeds = [100]\<rparr>)"
    unfolding create_rotating_gif_spline_def one_second_step_binary64
    by (simp add: plan_simps linear_slowdown_def b64)
  ultimately show ?thesis using one_second_step_binary64 by simp
qed

text \<open>
  C9. Every frame of a returned plan, the hold-still frames among them, has the one
  duration \<open>int(frame_duration * 1000)\<close>, and \<open>int\<close> truncates: its result is no larger
  in absolute value than its argument and less than one away from it.
\<close>

theorem every_frame_same_duration:
  assumes "create_rotating_gif_spline fl slowdown_curve animation_length frame_duration hold_still
             = Some (Inr p)"
  shows "(\<forall>f \<in> set (frames p). snd f = py_int (fl (frame_duration * 1000))) \<and>
         length (frames p) = num_frames p \<and>
         (\<exists>s. integrate fl slowdown_curve animation_length frame_duration initial = Some (Inr s) \<and>
              length (frames p) = length (angles s) +
                (if 0 < hold_still then nat \<lfloor>fl (hold_still / frame_duration)\<rfloor> else 0)) \<and>
         \<bar>real_of_int (py_int (fl (frame_duration * 1000)))\<bar> \<le> \<bar>fl (frame_duration * 1000)\<bar> \<and>
         \<bar>fl (frame_duration * 1000)\<bar> < \<bar>real_of_int (py_int (fl (frame_duration * 1000)))\<bar> + 1"
proof -
  from create_Inr[OF assms] obtain s where
    run: "integrate fl slowdown_curve animation_length frame_duration initial = Some (Inr s)" and
    a: "assemble fl slowdown_curve animation_length frame_duration hold_still s = Inr p"
    by blast
  note p = assemble_Inr[OF a]
  have "\<forall>f \<in> set (frames p). snd f = py_int (fl (frame_duration * 1000))"
    using p(3) by (auto simp: frames_def)
  moreover have "length (frames p) = num_frames p"
    using p(6) by (simp add: frames_def)
  moreover have "length (frames p) = length (angles s) +
      (if 0 < hold_still then nat \<lfloor>fl (hold_still / frame_duration)\<rfloor> else 0)"
    using p(2) normalize_length[of fl "total_angle s" "angles s"] by (simp add: frames_def)
  ultimately show ?thesis
    using run py_int_truncates[of "fl (frame_duration * 1000)"] by blast
qed

theorem every_frame_same_duration_witness:
  "create_rotating_gif_spline binary64 (select_curve binary64 Linear 720 3) (3 / 512) (3 / 1024) 0 =
     Some (Inr \<lparr>frame_angles = [0, 135 / 64, 0], frame_times = [0, 3 / 1024, 3 / 512],
       duration_ms = 2, num_frames = 3, num_rotations = 9 / 1024,
       total_duration = 3 / 512, final_total_angle = 405 / 128,
       printed = [PartialRotation (405 / 128)], reported_speeds = [720]\<rparr>) \<and>
   binary64 (3 / 1024 * 1000) = 375 / 128 \<and>
   py_int (binary64 (3 / 1024 * 1000)) = 2 \<and>
   frames \<lparr>frame_angles = [0, 135 / 64, 0], frame_times = [0, 3 / 1024, 3 / 512],
       duration_ms = 2, num_frames = 3, num_rotations = 9 / 1024,
       total_duration = 3 / 512, final_total_angle = 405 / 128,
       printed = [PartialRotation (405 / 128)], reported_speeds = [720]\<rparr>
     = [(0, 2), (135 / 64, 2), (0, 2)]"
proof -
  note t = every_frame_same_duration[OF three_steps_plan_binary64]
  have "binary64 (3 / 1024 * 1000) = 375 / 128" by (simp add: b64)
  moreover from t have "py_int (binary64 (3 / 1024 * 1000)) = 2"
    by (simp add: frames_def)
  ultimately show ?thesis
    using three_steps_plan_binary64 by (simp add: frames_def)
qed


text \<open>
  C10. With \<open>0 \<le> animation_length\<close> the loop body runs at least once, so a run that
  leaves the loop has recorded the sample at time 0 with angle 0, its angle list is not
  empty, and the assignment to the last angle succeeds: with any of the six curves the run
  never raises \<open>IndexError\<close>. In exact arithmetic, with a positive frame duration and a
  curve that does not raise, the loop is left.
\<close>

theorem first_sample_recorded:
  assumes "0 \<le> animation_length"
  shows "(\<forall>s. integrate fl slowdown_curve animation_length frame_duration initial = Some (Inr s) \<longrightarrow>
            angles s \<noteq> [] \<and> length (times s) = length (angles s) \<and>
            hd (times s) = 0 \<and> hd (angles s) = 0 \<and>
            (\<exists>looped. set_last (fst (snd (normalize fl (total_angle s) (angles s)))) 0 = Inr looped)) \<and>
         create_rotating_gif_spline fl (select_curve fl kind initial_speed decay_factor)
            animation_length frame_duration hold_still \<noteq> Some (Inl IndexError) \<and>
         (0 < frame_duration \<and> (\<forall>t. \<exists>v. slowdown_curve t animation_length = Inr v) \<longrightarrow>
            (\<exists>s. integrate exact slowdown_curve animation_length frame_duration initial = Some (Inr s)))"
proof (intro conjI allI impI)
  fix s
  assume run: "integrate fl slowdown_curve animation_length frame_duration initial = Some (Inr s)"
  note i = integrate_initial[OF run assms]
  show "angles s \<noteq> []" "length (times s) = length (angles s)" "hd (times s) = 0"
    "hd (angles s) = 0"
    using i by simp_all
  have "fst (snd (normalize fl (total_angle s) (angles s))) \<noteq> []"
    using normalize_length[of fl "total_angle s" "angles s"] i(1) by auto
  then show "\<exists>looped. set_last (fst (snd (normalize fl (total_angle s) (angles s)))) 0 = Inr looped"
    by (simp add: set_last_def)
next
  let ?c = "select_curve fl kind initial_speed decay_factor"
  show "create_rotating_gif_spline fl ?c animation_length frame_duration hold_still
          \<noteq> Some (Inl IndexError)"
  proof
    assume bad: "create_rotating_gif_spline fl ?c animation_length frame_duration hold_still
                   = Some (Inl IndexError)"
    show False
    proof (cases "integrate fl ?c animation_length frame_duration initial")
      case None
      with bad show False by (simp add: create_rotating_gif_spline_def)
    next
      case (Some r)
      show False
      proof (cases r)
        case (Inl e)
        with Some bad have "e = IndexError" by (simp add: create_rotating_gif_spline_def)
        moreover from integrate_error Some Inl obtain t where "?c t animation_length = Inl e"
          by blast
        ultimately show False using select_curve_error by fastforce
      next
        case (Inr s)
        with Some bad have a: "assemble fl ?c animation_length frame_duration hold_still s = Inl IndexError"
          by (simp add: create_rotating_gif_spline_def)
        have "angles s \<noteq> []" using integrate_initial(1) Some Inr assms by blast
        with assemble_Inl[OF a] obtain t where "?c t animation_length = Inl IndexError" by auto
        then show False using select_curve_error by fastforce
      qed
    qed
  qed
next
  assume "0 < frame_duration \<and> (\<forall>t. \<exists>v. slowdown_curve t animation_length = Inr v)"
  then show "\<exists>s. integrate exact slowdown_curve animation_length frame_duration initial = Some (Inr s)"
    using integrate_exact_run[of frame_duration animation_length slowdown_curve initial] by blast
qed

theorem first_sample_recorded_witness:
  "(0::real) \<le> 1 \<and>
   integrate binary64 (select_curve binary64 Linear 720 3) 1 (1 / 2) initial =
     Some (Inr \<lparr>times = [0, 1 / 2, 1], angles = [0, 360, 540],
                 current_time = 3 / 2, total_angle = 540\<rparr>) \<and>
   hd [0, 360, 540 :: real] = 0 \<and>
   create_rotating_gif_spline binary64 (select_curve binary64 Linear 720 3) 1 (1 / 2) 0
     \<noteq> Some (Inl IndexError)"
proof -
  have h: "(0::real) \<le> 1" by simp
  note t = first_sample_recorded[OF h, where fl = binary64 and kind = Linear
      and initial_speed = 720 and decay_factor = 3 and frame_duration = "1 / 2"
      and hold_still = 0]
  from t have "create_rotating_gif_spline binary64 (select_curve binary64 Linear 720 3) 1 (1 / 2) 0
     \<noteq> Some (Inl IndexError)"
    by blast
  with half_second_steps_binary64 show ?thesis by simp
qed


end
